theory Spec2Isabelle
  imports Complex_Main "HOL-Library.Word"
begin

section \<open>Face-swap video pipeline (src/main.py)\<close>

text \<open>
  The program warps a still face onto every frame of a video, triangle by triangle, and
  colour-corrects each warped frame by histogram matching. OpenCV, NumPy and MediaPipe are
  libraries outside the repository: what they return is a parameter of the model (the
  record \<open>cv2\<close> below), and only what \<^verbatim>\<open>main.py\<close> itself does with the returned values
  is defined here. Python exceptions are values of type \<open>error\<close>; a function that can raise
  returns \<open>error + 'a\<close>.

  Numbers: pixel intensities are 8-bit words. Coordinates and cumulative distributions are
  floating-point numbers in the program and exact rationals here; the one non-finite value
  the program can compute, the NaN of \<^verbatim>\<open>0 / 0.0\<close>, is kept as a value of its own.
\<close>

subsection \<open>Histogram matching: the lookup table (lines 84 to 98)\<close>

text \<open>
  \<^verbatim>\<open>np.histogram(channel.flatten(), 256, [0, 256])\<close> counts, for each level \<open>k\<close> of
  \<open>0..255\<close>, the pixels of value \<open>k\<close>: the bins are \<open>[k, k+1)\<close> and the values are bytes.
\<close>

definition histogram :: "8 word list \<Rightarrow> nat list" where
  "histogram xs = map (\<lambda>k. count_list xs (of_nat k)) [0..<256]"

text \<open>\<^verbatim>\<open>np.cumsum\<close>: the running sums of a list.\<close>

fun cumsum_from :: "nat \<Rightarrow> nat list \<Rightarrow> nat list" where
  "cumsum_from acc [] = []"
| "cumsum_from acc (x # xs) = (acc + x) # cumsum_from (acc + x) xs"

definition cumsum :: "nat list \<Rightarrow> nat list" where
  "cumsum xs = cumsum_from 0 xs"

text \<open>
  A float of the program: a finite value or NaN. \<^verbatim>\<open>a < b\<close> is false as soon as one side is
  NaN.
\<close>

datatype flt = NaN | Fin rat

fun flt_less :: "flt \<Rightarrow> flt \<Rightarrow> bool" where
  "flt_less (Fin a) (Fin b) = (a < b)"
| "flt_less _ _ = False"

fun flt_ge :: "flt \<Rightarrow> flt \<Rightarrow> bool" where
  "flt_ge (Fin a) (Fin b) = (a \<ge> b)"
| "flt_ge _ _ = False"

text \<open>
  \<^verbatim>\<open>np.cumsum(hist) / float(np.sum(hist))\<close>. For an empty channel the sum is 0 and NumPy
  yields NaN in every entry (a warning, no exception).
\<close>

definition cdf :: "nat list \<Rightarrow> flt list" where
  "cdf hist =
     (let total = sum_list hist
      in map (\<lambda>c. if total = 0 then NaN else Fin (of_nat c / of_nat total)) (cumsum hist))"

text \<open>
  The inner loop \<^verbatim>\<open>while r_cdf[g] < s_cdf[i] and g < 255: g += 1\<close>, for one level: \<open>s\<close> is
  \<^verbatim>\<open>s_cdf[i]\<close>. In \<^verbatim>\<open>match_histograms\<close> the table \<open>r_cdf\<close> has 256 entries and \<open>g\<close> never
  exceeds 255, so \<^verbatim>\<open>r_cdf[g]\<close> is always in range.
\<close>

function scan :: "flt list \<Rightarrow> flt \<Rightarrow> nat \<Rightarrow> nat" where
  "scan r_cdf s g = (if flt_less (r_cdf ! g) s \<and> g < 255 then scan r_cdf s (g + 1) else g)"
  by pat_completeness auto
termination
  by (relation "measure (\<lambda>(r_cdf, s, g). 255 - g)") auto

declare scan.simps [simp del]

text \<open>
  The outer loop \<^verbatim>\<open>for i in range(256)\<close>: \<open>g\<close> is carried from one level to the next, and
  \<^verbatim>\<open>lookup_table[i] = g\<close> is the value after the scan for level \<open>i\<close>.
\<close>

fun fill_table :: "flt list \<Rightarrow> flt list \<Rightarrow> nat \<Rightarrow> nat list \<Rightarrow> nat list" where
  "fill_table r_cdf s_cdf g [] = []"
| "fill_table r_cdf s_cdf g (i # levels) =
     (let g' = scan r_cdf (s_cdf ! i) g in g' # fill_table r_cdf s_cdf g' levels)"

definition lookup_table :: "nat list \<Rightarrow> nat list \<Rightarrow> nat list" where
  "lookup_table s_hist r_hist = fill_table (cdf r_hist) (cdf s_hist) 0 [0..<256]"

subsection \<open>Arrays and images\<close>

text \<open>
  A NumPy array of two spatial axes: its shape and its entries by row and column. The
  channel axis of an image is folded into the entry: a pixel is its three bytes, in the
  order B, G, R of \<^verbatim>\<open>cv2.imread\<close> and \<^verbatim>\<open>VideoCapture.read\<close>. \<open>item\<close> is only ever read inside
  the shape.
\<close>

record 'a ndarray =
  rows :: nat
  cols :: nat
  item :: "nat \<Rightarrow> nat \<Rightarrow> 'a"

type_synonym pixel = "8 word \<times> 8 word \<times> 8 word"
type_synonym image = "pixel ndarray"
type_synonym fpixel = "rat \<times> rat \<times> rat"

text \<open>The exceptions that can pass through \<^verbatim>\<open>main.py\<close>; it raises none of its own and catches none.\<close>

datatype error = CvError | IndexError | ValueError

text \<open>\<^verbatim>\<open>array.flatten()\<close>: the entries in row-major order.\<close>

definition flatten :: "'a ndarray \<Rightarrow> 'a list" where
  "flatten A = concat (map (\<lambda>r. map (\<lambda>c. item A r c) [0..<cols A]) [0..<rows A])"

text \<open>\<^verbatim>\<open>cv2.split\<close> and \<^verbatim>\<open>cv2.merge\<close> for a three-channel image.\<close>

definition split :: "image \<Rightarrow> 8 word ndarray \<times> 8 word ndarray \<times> 8 word ndarray" where
  "split img =
     (\<lparr>rows = rows img, cols = cols img, item = \<lambda>r c. fst (item img r c)\<rparr>,
      \<lparr>rows = rows img, cols = cols img, item = \<lambda>r c. fst (snd (item img r c))\<rparr>,
      \<lparr>rows = rows img, cols = cols img, item = \<lambda>r c. snd (snd (item img r c))\<rparr>)"

definition merge :: "8 word ndarray \<times> 8 word ndarray \<times> 8 word ndarray \<Rightarrow> image" where
  "merge chans =
     (case chans of (b, g, r) \<Rightarrow>
        \<lparr>rows = rows b, cols = cols b, item = \<lambda>i j. (item b i j, item g i j, item r i j)\<rparr>)"

subsection \<open>\<^verbatim>\<open>match_histograms\<close> (lines 73 to 106)\<close>

text \<open>
  One turn of the loop over the zipped channels: the two histograms, the lookup table, and
  \<^verbatim>\<open>cv2.LUT(np.uint8(s_channel), np.uint8(lookup_table))\<close>, which replaces each byte \<open>v\<close> by
  entry \<open>v\<close> of the table.
\<close>

definition channel_table :: "8 word ndarray \<Rightarrow> 8 word ndarray \<Rightarrow> nat list" where
  "channel_table s_channel r_channel =
     lookup_table (histogram (flatten s_channel)) (histogram (flatten r_channel))"

definition match_channel :: "8 word ndarray \<Rightarrow> 8 word ndarray \<Rightarrow> 8 word ndarray" where
  "match_channel s_channel r_channel =
     (let lookup = channel_table s_channel r_channel
      in \<lparr>rows = rows s_channel, cols = cols s_channel,
          item = \<lambda>r c. of_nat (lookup ! unat (item s_channel r c))\<rparr>)"

definition match_histograms :: "image \<Rightarrow> image \<Rightarrow> image" where
  "match_histograms source reference =
     (case (split source, split reference) of
        ((sb, sg, sr), (rb, rg, rr)) \<Rightarrow>
          merge (match_channel sb rb, match_channel sg rg, match_channel sr rr))"

subsection \<open>The libraries\<close>

type_synonym point = "rat \<times> rat"
type_synonym rect = "int \<times> int \<times> int \<times> int"
type_synonym tri6 = "rat \<times> rat \<times> rat \<times> rat \<times> rat \<times> rat"

text \<open>
  What the program asks of MediaPipe and OpenCV, as functions of the arguments it passes:
  \<^item> \<open>face_mesh\<close>: the normalised landmarks of the first face, or \<open>None\<close> when
    \<^verbatim>\<open>results.multi_face_landmarks\<close> is empty;
  \<^item> \<open>subdiv2d\<close>: \<^verbatim>\<open>Subdiv2D(rect)\<close>, the insertion of every point and \<^verbatim>\<open>getTriangleList()\<close>,
    six coordinates per triangle, or the error OpenCV raises;
  \<^item> \<open>boundingRect\<close>: \<open>(x, y, width, height)\<close> of a point list;
  \<^item> \<open>getAffineTransform\<close> and \<open>warpAffine\<close>: the matrix, and the resampled patch as a
    function of the destination row and column, or the error OpenCV raises;
  \<^item> \<open>fillConvexPoly\<close>: whether the polygon covers the pixel at a row and column (on a
    float mask the call writes the colour \<open>(1.0, 1.0, 1.0)\<close> there and leaves the rest).
\<close>

record 'm cv2 =
  face_mesh :: "image \<Rightarrow> point list option"
  subdiv2d :: "rect \<Rightarrow> point list \<Rightarrow> error + tri6 list"
  boundingRect :: "point list \<Rightarrow> rect"
  getAffineTransform :: "point list \<Rightarrow> point list \<Rightarrow> error + 'm"
  warpAffine :: "image \<Rightarrow> 'm \<Rightarrow> int \<times> int \<Rightarrow> error + (nat \<Rightarrow> nat \<Rightarrow> pixel)"
  fillConvexPoly :: "(int \<times> int) list \<Rightarrow> nat \<Rightarrow> nat \<Rightarrow> bool"

text \<open>Python's \<^verbatim>\<open>int(x)\<close> truncates towards zero.\<close>

definition py_int :: "rat \<Rightarrow> int" where
  "py_int q = (if 0 \<le> q then \<lfloor>q\<rfloor> else \<lceil>q\<rceil>)"

subsection \<open>\<^verbatim>\<open>get_landmarks\<close> (lines 9 to 15)\<close>

definition get_landmarks :: "'m cv2 \<Rightarrow> image \<Rightarrow> point list option" where
  "get_landmarks cv img =
     (case face_mesh cv img of
        None \<Rightarrow> None
      | Some face_landmarks \<Rightarrow>
          Some (map (\<lambda>lm. (of_int (py_int (fst lm * of_nat (cols img))),
                           of_int (py_int (snd lm * of_nat (rows img))))) face_landmarks))"

subsection \<open>\<^verbatim>\<open>get_delaunay_triangles\<close> (lines 45 to 71)\<close>

text \<open>The test of lines 58 to 60, for one vertex.\<close>

definition in_rect :: "rect \<Rightarrow> point \<Rightarrow> bool" where
  "in_rect rect pt =
     (case rect of (x, y, w, h) \<Rightarrow>
        fst pt \<ge> of_int x \<and> snd pt \<ge> of_int y \<and> fst pt < of_int (x + w) \<and> snd pt < of_int (y + h))"

text \<open>
  The loop of lines 64 to 67 over \<^verbatim>\<open>enumerate(points)\<close>, from index \<open>k\<close> on: the first point
  less than 1.0 away in both axes, where the loop breaks.
\<close>

fun first_near :: "point \<Rightarrow> point list \<Rightarrow> nat \<Rightarrow> nat option" where
  "first_near p [] k = None"
| "first_near p (point # points) k =
     (if \<bar>fst p - fst point\<bar> < 1 \<and> \<bar>snd p - snd point\<bar> < 1 then Some k
      else first_near p points (k + 1))"

text \<open>The list \<open>ind\<close> of lines 62 to 67: one index for each vertex that has a near point.\<close>

definition resolve :: "point list \<Rightarrow> point list \<Rightarrow> nat list" where
  "resolve points pts = List.map_filter (\<lambda>p. first_near p points 0) pts"

fun delaunay_loop :: "rect \<Rightarrow> point list \<Rightarrow> tri6 list \<Rightarrow> (nat \<times> nat \<times> nat) list" where
  "delaunay_loop rect points [] = []"
| "delaunay_loop rect points ((t0, t1, t2, t3, t4, t5) # triangle_list) =
     (let pt1 = (t0, t1); pt2 = (t2, t3); pt3 = (t4, t5)
      in if in_rect rect pt1 \<and> in_rect rect pt2 \<and> in_rect rect pt3
         then (let ind = resolve points [pt1, pt2, pt3]
               in if length ind = 3
                  then (ind ! 0, ind ! 1, ind ! 2) # delaunay_loop rect points triangle_list
                  else delaunay_loop rect points triangle_list)
         else delaunay_loop rect points triangle_list)"

definition get_delaunay_triangles ::
  "'m cv2 \<Rightarrow> rect \<Rightarrow> point list \<Rightarrow> error + (nat \<times> nat \<times> nat) list" where
  "get_delaunay_triangles cv rect points =
     (case subdiv2d cv rect points of
        Inl e \<Rightarrow> Inl e
      | Inr triangle_list \<Rightarrow> Inr (delaunay_loop rect points triangle_list))"

subsection \<open>NumPy slices and elementwise arithmetic\<close>

text \<open>
  A bound of the slice \<^verbatim>\<open>a[i:j]\<close> on an axis of length \<open>n\<close>: a negative bound counts from the
  end, and every bound is clipped to \<open>0..n\<close>. A slice never raises; it is empty when the
  upper bound is not above the lower one.
\<close>

definition slice_bound :: "int \<Rightarrow> nat \<Rightarrow> nat" where
  "slice_bound i n = (if i < 0 then nat (max 0 (i + int n)) else min (nat i) n)"

text \<open>\<^verbatim>\<open>A[r0:r1, c0:c1]\<close> as a value.\<close>

definition np_slice :: "'a ndarray \<Rightarrow> int \<Rightarrow> int \<Rightarrow> int \<Rightarrow> int \<Rightarrow> 'a ndarray" where
  "np_slice A r0 r1 c0 c1 =
     (let lo_r = slice_bound r0 (rows A); hi_r = slice_bound r1 (rows A);
          lo_c = slice_bound c0 (cols A); hi_c = slice_bound c1 (cols A)
      in \<lparr>rows = hi_r - lo_r, cols = hi_c - lo_c, item = \<lambda>r c. item A (lo_r + r) (lo_c + c)\<rparr>)"

text \<open>
  Broadcasting: two axis lengths are compatible when they are equal or one of them is 1,
  and an axis of length 1 is read at index 0 throughout. Incompatible shapes raise
  \<^verbatim>\<open>ValueError\<close>.
\<close>

definition bdim :: "nat \<Rightarrow> nat \<Rightarrow> nat option" where
  "bdim a b = (if a = b then Some a else if a = 1 then Some b else if b = 1 then Some a else None)"

definition bidx :: "nat \<Rightarrow> nat \<Rightarrow> nat" where
  "bidx n i = (if n = 1 then 0 else i)"

definition np_binop :: "('a \<Rightarrow> 'b \<Rightarrow> 'c) \<Rightarrow> 'a ndarray \<Rightarrow> 'b ndarray \<Rightarrow> error + 'c ndarray" where
  "np_binop f A B =
     (case (bdim (rows A) (rows B), bdim (cols A) (cols B)) of
        (Some h, Some w) \<Rightarrow>
          Inr \<lparr>rows = h, cols = w,
               item = \<lambda>r c. f (item A (bidx (rows A) r) (bidx (cols A) c))
                              (item B (bidx (rows B) r) (bidx (cols B) c))\<rparr>
      | _ \<Rightarrow> Inl ValueError)"

text \<open>
  The store of a float value into a byte array truncates it. The values stored by
  \<^verbatim>\<open>warp_triangles\<close> lie in \<open>0..255\<close>, where the conversion is exact on integers.
\<close>

definition to_uint8 :: "rat \<Rightarrow> 8 word" where
  "to_uint8 q = word_of_int (py_int q)"

definition to_pixel :: "fpixel \<Rightarrow> pixel" where
  "to_pixel p = (case p of (b, g, r) \<Rightarrow> (to_uint8 b, to_uint8 g, to_uint8 r))"

text \<open>
  \<^verbatim>\<open>A[r0:r1, c0:c1] = V\<close> on a byte image: \<open>V\<close> must broadcast to the shape of the slice
  (each axis equal to the slice's or of length 1), otherwise \<^verbatim>\<open>ValueError\<close> and \<open>A\<close> is
  untouched. The array is mutated in place; the model returns the new array.
\<close>

definition np_setslice :: "image \<Rightarrow> int \<Rightarrow> int \<Rightarrow> int \<Rightarrow> int \<Rightarrow> fpixel ndarray \<Rightarrow> error + image" where
  "np_setslice A r0 r1 c0 c1 V =
     (let lo_r = slice_bound r0 (rows A); hi_r = slice_bound r1 (rows A);
          lo_c = slice_bound c0 (cols A); hi_c = slice_bound c1 (cols A)
      in if (rows V = hi_r - lo_r \<or> rows V = 1) \<and> (cols V = hi_c - lo_c \<or> cols V = 1)
         then Inr (A\<lparr>item := \<lambda>r c.
                     if lo_r \<le> r \<and> r < hi_r \<and> lo_c \<le> c \<and> c < hi_c
                     then to_pixel (item V (bidx (rows V) (r - lo_r)) (bidx (cols V) (c - lo_c)))
                     else item A r c\<rparr>)
         else Inl ValueError)"

text \<open>A byte pixel times a float weight, a float pixel plus a float pixel.\<close>

definition scale :: "pixel \<Rightarrow> rat \<Rightarrow> fpixel" where
  "scale p m = (case p of (b, g, r) \<Rightarrow> (of_nat (unat b) * m, of_nat (unat g) * m, of_nat (unat r) * m))"

definition fadd :: "fpixel \<Rightarrow> fpixel \<Rightarrow> fpixel" where
  "fadd p q = (case (p, q) of ((b, g, r), (b', g', r')) \<Rightarrow> (b + b', g + g', r + r'))"

subsection \<open>\<^verbatim>\<open>apply_affine_transform\<close> (lines 17 to 20)\<close>

text \<open>\<^verbatim>\<open>warpAffine\<close> returns an array of \<^verbatim>\<open>size[1]\<close> rows and \<^verbatim>\<open>size[0]\<close> columns.\<close>

definition apply_affine_transform ::
  "'m cv2 \<Rightarrow> image \<Rightarrow> point list \<Rightarrow> point list \<Rightarrow> int \<times> int \<Rightarrow> error + image" where
  "apply_affine_transform cv src src_tri dst_tri size' =
     (case getAffineTransform cv src_tri dst_tri of
        Inl e \<Rightarrow> Inl e
      | Inr warp_mat \<Rightarrow>
          (case warpAffine cv src warp_mat (fst size', snd size') of
             Inl e \<Rightarrow> Inl e
           | Inr dst \<Rightarrow> Inr \<lparr>rows = nat (snd size'), cols = nat (fst size'), item = dst\<rparr>))"

subsection \<open>\<^verbatim>\<open>warp_triangles\<close> (lines 22 to 43)\<close>

text \<open>
  The mask of lines 40 and 41: zeros of \<^verbatim>\<open>r2[3]\<close> rows and \<^verbatim>\<open>r2[2]\<close> columns, then the colour
  1.0 in all three channels wherever the polygon covers. One weight stands for the three
  equal channels.
\<close>

definition fill_mask :: "'m cv2 \<Rightarrow> rect \<Rightarrow> (int \<times> int) list \<Rightarrow> rat ndarray" where
  "fill_mask cv r2 poly =
     (case r2 of (x, y, w, h) \<Rightarrow>
        \<lparr>rows = nat h, cols = nat w, item = \<lambda>r c. if fillConvexPoly cv poly r c then 1 else 0\<rparr>)"

text \<open>
  The loop of lines 29 to 33: the triangle in the coordinates of its bounding rectangle
  (\<open>tri1_rect\<close>, \<open>tri2_rect\<close>), and the same truncated by \<^verbatim>\<open>int\<close> (\<open>tri2_rect_int\<close>). It reads
  the entries 0, 1 and 2 of the triangle.
\<close>

definition local_tri :: "rect \<Rightarrow> point list \<Rightarrow> point list" where
  "local_tri r tri =
     (case r of (x, y, w, h) \<Rightarrow> map (\<lambda>p. (fst p - of_int x, snd p - of_int y)) (take 3 tri))"

definition local_tri_int :: "rect \<Rightarrow> point list \<Rightarrow> (int \<times> int) list" where
  "local_tri_int r tri =
     (case r of (x, y, w, h) \<Rightarrow>
        map (\<lambda>p. (py_int (fst p - of_int x), py_int (snd p - of_int y))) (take 3 tri))"

text \<open>
  Lines 23 to 38: the source sub-image under the bounding rectangle of \<open>tri1\<close>, warped onto
  a patch of the size of the bounding rectangle of \<open>tri2\<close>.
\<close>

definition warped_patch :: "'m cv2 \<Rightarrow> image \<Rightarrow> point list \<Rightarrow> point list \<Rightarrow> error + image" where
  "warped_patch cv img1 tri1 tri2 =
     (case (boundingRect cv tri1, boundingRect cv tri2) of
        ((x1, y1, w1, h1), (x2, y2, w2, h2)) \<Rightarrow>
          apply_affine_transform cv (np_slice img1 y1 (y1 + h1) x1 (x1 + w1))
            (local_tri (x1, y1, w1, h1) tri1) (local_tri (x2, y2, w2, h2) tri2) (w2, h2))"

text \<open>Lines 40 and 41: the mask of the destination triangle, local to its rectangle.\<close>

definition dest_mask :: "'m cv2 \<Rightarrow> point list \<Rightarrow> rat ndarray" where
  "dest_mask cv tri2 =
     fill_mask cv (boundingRect cv tri2) (local_tri_int (boundingRect cv tri2) tri2)"

text \<open>
  Lines 42 and 43: \<^verbatim>\<open>img2_rect = img2_rect * mask\<close>, then the slice of \<open>img2\<close> under the
  rectangle \<open>r2\<close> becomes itself times \<^verbatim>\<open>(1.0 - mask)\<close> plus \<open>img2_rect\<close>. The right-hand side
  is computed before the store: an error there leaves \<open>img2\<close> as it was.
\<close>

definition blend :: "image \<Rightarrow> rect \<Rightarrow> image \<Rightarrow> rat ndarray \<Rightarrow> error + image" where
  "blend img2 r2 warped mask' =
     (case r2 of (x2, y2, w2, h2) \<Rightarrow>
        (case np_binop scale warped mask' of
           Inl e \<Rightarrow> Inl e
         | Inr img2_rect \<Rightarrow>
             (case np_binop scale (np_slice img2 y2 (y2 + h2) x2 (x2 + w2))
                     (mask'\<lparr>item := \<lambda>r c. 1 - item mask' r c\<rparr>) of
                Inl e \<Rightarrow> Inl e
              | Inr kept \<Rightarrow>
                  (case np_binop fadd kept img2_rect of
                     Inl e \<Rightarrow> Inl e
                   | Inr blended \<Rightarrow> np_setslice img2 y2 (y2 + h2) x2 (x2 + w2) blended))))"

text \<open>
  The whole function. A triangle of fewer than three points raises \<^verbatim>\<open>IndexError\<close> in the
  loop of lines 29 to 33; \<^verbatim>\<open>np.zeros\<close> with a negative dimension raises \<^verbatim>\<open>ValueError\<close> at line 36.
  \<open>img2\<close> is mutated in place; the model returns the new image.
\<close>

definition warp_triangles ::
  "'m cv2 \<Rightarrow> image \<Rightarrow> image \<Rightarrow> point list \<Rightarrow> point list \<Rightarrow> error + image" where
  "warp_triangles cv img1 img2 tri1 tri2 =
     (case boundingRect cv tri2 of
        (x2, y2, w2, h2) \<Rightarrow>
          if length tri1 < 3 \<or> length tri2 < 3 then Inl IndexError
          else if h2 < 0 \<or> w2 < 0 then Inl ValueError
          else
            (case warped_patch cv img1 tri1 tri2 of
               Inl e \<Rightarrow> Inl e
             | Inr warped \<Rightarrow> blend img2 (x2, y2, w2, h2) warped (dest_mask cv tri2)))"

subsection \<open>\<^verbatim>\<open>process_video\<close> (lines 108 to 158)\<close>

text \<open>\<^verbatim>\<open>xs[k]\<close> for an index that is not negative.\<close>

definition list_get :: "'a list \<Rightarrow> nat \<Rightarrow> error + 'a" where
  "list_get xs k = (if k < length xs then Inr (xs ! k) else Inl IndexError)"

text \<open>The list \<^verbatim>\<open>[lm[t[0]], lm[t[1]], lm[t[2]]]\<close> of lines 147 and 148.\<close>

definition triangle_of :: "point list \<Rightarrow> nat \<times> nat \<times> nat \<Rightarrow> error + point list" where
  "triangle_of landmarks tri_indices =
     (case tri_indices of (a, b, c) \<Rightarrow>
        (case list_get landmarks a of Inl e \<Rightarrow> Inl e | Inr pa \<Rightarrow>
         (case list_get landmarks b of Inl e \<Rightarrow> Inl e | Inr pb \<Rightarrow>
          (case list_get landmarks c of Inl e \<Rightarrow> Inl e | Inr pc \<Rightarrow> Inr [pa, pb, pc]))))"

text \<open>
  The loop of lines 146 to 149 over the triangles, on the working copy \<open>warped_frame\<close>.
  Nothing catches an exception: the first one ends the loop and leaves the function.
\<close>

fun warp_frame ::
  "'m cv2 \<Rightarrow> image \<Rightarrow> point list \<Rightarrow> point list \<Rightarrow> (nat \<times> nat \<times> nat) list \<Rightarrow> image \<Rightarrow> error + image" where
  "warp_frame cv static_img static_landmarks frame_landmarks [] warped_frame = Inr warped_frame"
| "warp_frame cv static_img static_landmarks frame_landmarks (tri_indices # rest) warped_frame =
     (case triangle_of static_landmarks tri_indices of
        Inl e \<Rightarrow> Inl e
      | Inr tri1 \<Rightarrow>
          (case triangle_of frame_landmarks tri_indices of
             Inl e \<Rightarrow> Inl e
           | Inr tri2 \<Rightarrow>
               (case warp_triangles cv static_img warped_frame tri1 tri2 of
                  Inl e \<Rightarrow> Inl e
                | Inr warped_frame' \<Rightarrow>
                    warp_frame cv static_img static_landmarks frame_landmarks rest warped_frame')))"

text \<open>
  The loop of lines 135 to 154. The capture is the list of the frames it has still to
  deliver: \<^verbatim>\<open>cap.read()\<close> returns the head, and \<^verbatim>\<open>ret\<close> is false on the empty list. The writer
  is the list of the frames written so far.
\<close>

fun process_frames ::
  "'m cv2 \<Rightarrow> image \<Rightarrow> point list \<Rightarrow> (nat \<times> nat \<times> nat) list \<Rightarrow> image list \<Rightarrow> image list
     \<Rightarrow> error + image list" where
  "process_frames cv static_img static_landmarks static_delaunay_tri [] written = Inr written"
| "process_frames cv static_img static_landmarks static_delaunay_tri (frame # cap) written =
     (case get_landmarks cv frame of
        None \<Rightarrow> process_frames cv static_img static_landmarks static_delaunay_tri cap written
      | Some frame_landmarks \<Rightarrow>
          (case warp_frame cv static_img static_landmarks frame_landmarks static_delaunay_tri frame of
             Inl e \<Rightarrow> Inl e
           | Inr warped_frame \<Rightarrow>
               process_frames cv static_img static_landmarks static_delaunay_tri cap
                 (written @ [match_histograms warped_frame frame])))"

text \<open>
  How a run ends when no exception escapes: one of the three early returns, or the end of
  the video with the writer's frame size \<open>(width, height)\<close> and the frames written.
\<close>

datatype outcome =
    NoStaticLandmarks
  | VideoNotOpened
  | NoFrameRead
  | Complete "nat \<times> nat" "image list"

text \<open>
  The inputs are what the three paths deliver: the decoded still image (\<^verbatim>\<open>cv2.imread\<close>
  returns \<^verbatim>\<open>None\<close> for a file it cannot read, and \<^verbatim>\<open>cvtColor\<close> then raises), and the frames
  of the video (\<open>None\<close> when the capture does not open).
\<close>

definition process_video :: "'m cv2 \<Rightarrow> image option \<Rightarrow> image list option \<Rightarrow> error + outcome" where
  "process_video cv imread video =
     (case imread of
        None \<Rightarrow> Inl CvError
      | Some static_img \<Rightarrow>
          (case get_landmarks cv static_img of
             None \<Rightarrow> Inr NoStaticLandmarks
           | Some static_landmarks \<Rightarrow>
               (case get_delaunay_triangles cv (0, 0, int (cols static_img), int (rows static_img))
                       static_landmarks of
                  Inl e \<Rightarrow> Inl e
                | Inr static_delaunay_tri \<Rightarrow>
                    (case video of
                       None \<Rightarrow> Inr VideoNotOpened
                     | Some [] \<Rightarrow> Inr NoFrameRead
                     | Some (first_frame # cap) \<Rightarrow>
                         (case process_frames cv static_img static_landmarks static_delaunay_tri cap [] of
                            Inl e \<Rightarrow> Inl e
                          | Inr written \<Rightarrow>
                              Inr (Complete (cols first_frame, rows first_frame) written))))))"

subsection \<open>Concrete inputs\<close>

text \<open>The image of one pixel, and an image of one colour.\<close>

definition one_pixel :: "pixel \<Rightarrow> image" where
  "one_pixel p = \<lparr>rows = 1, cols = 1, item = \<lambda>r c. p\<rparr>"

definition plain :: "nat \<Rightarrow> nat \<Rightarrow> pixel \<Rightarrow> image" where
  "plain h w p = \<lparr>rows = h, cols = w, item = \<lambda>r c. p\<rparr>"

text \<open>
  The bounding rectangle of a point list the way OpenCV computes it for float points: the
  floors of the least coordinates, and the floors of the greatest ones minus those, plus 1.
\<close>

definition bounding_box :: "point list \<Rightarrow> rect" where
  "bounding_box pts =
     (case pts of
        [] \<Rightarrow> (0, 0, 0, 0)
      | p # ps \<Rightarrow>
          (let x = \<lfloor>fold min (map fst ps) (fst p)\<rfloor>; y = \<lfloor>fold min (map snd ps) (snd p)\<rfloor>;
               x' = \<lfloor>fold max (map fst ps) (fst p)\<rfloor>; y' = \<lfloor>fold max (map snd ps) (snd p)\<rfloor>
           in (x, y, x' - x + 1, y' - y + 1)))"

text \<open>Twice the signed area of a triangle; 0 for a list that is not a triangle.\<close>

fun area2 :: "point list \<Rightarrow> rat" where
  "area2 [p0, p1, p2] =
     (fst p1 - fst p0) * (snd p2 - snd p0) - (fst p2 - fst p0) * (snd p1 - snd p0)"
| "area2 _ = 0"

text \<open>
  A library for the examples: a given detector; a subdivision that returns a given triangle
  list; an affine solver that, when \<open>strict\<close>, raises on a triangle of area zero and
  otherwise always returns; a resampler that returns a patch of one colour; a polygon fill
  that covers every pixel or none.
\<close>

definition stub_cv ::
  "(image \<Rightarrow> point list option) \<Rightarrow> tri6 list \<Rightarrow> bool \<Rightarrow> bool \<Rightarrow> pixel \<Rightarrow> unit cv2" where
  "stub_cv detect triangles strict covered colour =
     \<lparr>face_mesh = detect,
      subdiv2d = \<lambda>rect points. Inr triangles,
      boundingRect = bounding_box,
      getAffineTransform =
        (\<lambda>src dst. if strict \<and> (area2 src = 0 \<or> area2 dst = 0) then Inl CvError else Inr ()),
      warpAffine = \<lambda>src m sz. Inr (\<lambda>r c. colour),
      fillConvexPoly = \<lambda>poly r c. covered\<rparr>"

text \<open>A detector for the examples: no face in a frame whose first pixel is black.\<close>

definition detect_nonblack :: "point list \<Rightarrow> image \<Rightarrow> point list option" where
  "detect_nonblack lms img = (if item img 0 0 = (0, 0, 0) then None else Some lms)"

text \<open>A detector that finds no face.\<close>

definition no_face :: "image \<Rightarrow> point list option" where
  "no_face img = None"

text \<open>
  A library whose polygon fill covers every pixel and whose resampler returns the colour
  \<open>(9, 9, 9)\<close>.
\<close>

definition lib_fill :: "unit cv2" where
  "lib_fill = stub_cv no_face [] False True (9, 9, 9)"

text \<open>
  A library that finds a face without landmarks in every frame that is not black, and no
  triangle.
\<close>

definition lib_plain :: "unit cv2" where
  "lib_plain = stub_cv (detect_nonblack []) [] False False (0, 0, 0)"

text \<open>
  Two libraries that find the same three normalised landmarks in every frame that is not
  black and one triangle over them, and differ in the affine solver: the strict one raises
  on a triangle of area zero, the lenient one returns. In an image of one pixel the three
  landmarks fall on the same pixel.
\<close>

definition lib_strict :: "unit cv2" where
  "lib_strict = stub_cv (detect_nonblack [(0, 0), (1 / 2, 0), (0, 1 / 2)]) [(0, 0, 2, 0, 0, 2)] True True (9, 9, 9)"

definition lib_lenient :: "unit cv2" where
  "lib_lenient = stub_cv (detect_nonblack [(0, 0), (1 / 2, 0), (0, 1 / 2)]) [(0, 0, 2, 0, 0, 2)] False True (9, 9, 9)"

subsection \<open>Auxiliary notions for the proofs\<close>

text \<open>What one candidate triangle contributes to the result.\<close>

definition candidate :: "rect \<Rightarrow> point list \<Rightarrow> tri6 \<Rightarrow> (nat \<times> nat \<times> nat) option" where
  "candidate rect points t =
     (case t of (t0, t1, t2, t3, t4, t5) \<Rightarrow>
        if in_rect rect (t0, t1) \<and> in_rect rect (t2, t3) \<and> in_rect rect (t4, t5)
        then (case (first_near (t0, t1) points 0, first_near (t2, t3) points 0,
                    first_near (t4, t5) points 0) of
                (Some a, Some b, Some c) \<Rightarrow> Some (a, b, c)
              | _ \<Rightarrow> None)
        else None)"

text \<open>The pixel at a row and column of the image a call returned, or the error it raised.\<close>

definition pixel_at :: "error + image \<Rightarrow> nat \<Rightarrow> nat \<Rightarrow> error + pixel" where
  "pixel_at res r c = (case res of Inl e \<Rightarrow> Inl e | Inr img \<Rightarrow> Inr (item img r c))"

text \<open>
  One turn of the loop of lines 135 to 154: the frame it writes, \<open>None\<close> when the frame is
  skipped, or the error that ends the run.
\<close>

definition corrected_frame ::
  "'m cv2 \<Rightarrow> image \<Rightarrow> point list \<Rightarrow> (nat \<times> nat \<times> nat) list \<Rightarrow> image \<Rightarrow> error + image option" where
  "corrected_frame cv static_img static_landmarks static_delaunay_tri frame =
     (case get_landmarks cv frame of
        None \<Rightarrow> Inr None
      | Some frame_landmarks \<Rightarrow>
          (case warp_frame cv static_img static_landmarks frame_landmarks static_delaunay_tri frame of
             Inl e \<Rightarrow> Inl e
           | Inr warped_frame \<Rightarrow> Inr (Some (match_histograms warped_frame frame))))"

text \<open>How many frames a run wrote, when it reached the end of the video.\<close>

definition frames_written :: "error + outcome \<Rightarrow> error + nat option" where
  "frames_written res =
     (case res of
        Inl e \<Rightarrow> Inl e
      | Inr (Complete sz written) \<Rightarrow> Inr (Some (length written))
      | Inr _ \<Rightarrow> Inr None)"

section \<open>Properties of the lookup table\<close>

lemma scan_step: "flt_less (r ! g) s \<Longrightarrow> g < 255 \<Longrightarrow> scan r s g = scan r s (g + 1)"
  by (subst scan.simps) auto

lemma scan_done: "\<not> (flt_less (r ! g) s \<and> g < 255) \<Longrightarrow> scan r s g = g"
  by (subst scan.simps) auto

lemma scan_ge: "g \<le> scan r s g"
proof (induction r s g rule: scan.induct)
  case (1 r s g)
  show ?case
  proof (cases "flt_less (r ! g) s \<and> g < 255")
    case True
    with 1 have "g + 1 \<le> scan r s (g + 1)" by simp
    with True show ?thesis by (simp add: scan_step)
  next
    case False
    then show ?thesis by (simp add: scan_done)
  qed
qed

lemma scan_le: "g \<le> 255 \<Longrightarrow> scan r s g \<le> 255"
proof (induction r s g rule: scan.induct)
  case (1 r s g)
  show ?case
  proof (cases "flt_less (r ! g) s \<and> g < 255")
    case True
    with 1 have "scan r s (g + 1) \<le> 255" by simp
    with True show ?thesis by (simp add: scan_step)
  next
    case False
    with 1 show ?thesis by (simp add: scan_done)
  qed
qed

lemma scan_below: "g \<le> k \<Longrightarrow> k < scan r s g \<Longrightarrow> flt_less (r ! k) s"
proof (induction r s g rule: scan.induct)
  case (1 r s g)
  show ?case
  proof (cases "flt_less (r ! g) s \<and> g < 255")
    case True
    then have eq: "scan r s g = scan r s (g + 1)" by (simp add: scan_step)
    show ?thesis
    proof (cases "k = g")
      case True
      with \<open>flt_less (r ! g) s \<and> g < 255\<close> show ?thesis by simp
    next
      case False
      with 1 True eq show ?thesis by simp
    qed
  next
    case False
    then have "scan r s g = g" by (rule scan_done)
    with 1 show ?thesis by simp
  qed
qed

lemma scan_stop: "g \<le> 255 \<Longrightarrow> scan r s g = 255 \<or> \<not> flt_less (r ! scan r s g) s"
proof (induction r s g rule: scan.induct)
  case (1 r s g)
  show ?case
  proof (cases "flt_less (r ! g) s \<and> g < 255")
    case True
    with 1 have "scan r s (g + 1) = 255 \<or> \<not> flt_less (r ! scan r s (g + 1)) s" by simp
    with True show ?thesis by (simp add: scan_step)
  next
    case False
    then have "scan r s g = g" by (rule scan_done)
    with False 1 show ?thesis by auto
  qed
qed

lemma length_fill_table: "length (fill_table r s g levels) = length levels"
  by (induction levels arbitrary: g) (simp_all add: Let_def)

lemma fill_table_lower: "x \<in> set (fill_table r s g levels) \<Longrightarrow> g \<le> x"
proof (induction levels arbitrary: g)
  case Nil
  then show ?case by simp
next
  case (Cons i levels)
  from Cons.prems have "x = scan r (s ! i) g \<or> x \<in> set (fill_table r s (scan r (s ! i) g) levels)"
    by (simp add: Let_def)
  then show ?case
  proof
    assume "x = scan r (s ! i) g"
    then show ?thesis by (simp add: scan_ge)
  next
    assume "x \<in> set (fill_table r s (scan r (s ! i) g) levels)"
    then have "scan r (s ! i) g \<le> x" by (rule Cons.IH)
    with scan_ge [of g r "s ! i"] show ?thesis by simp
  qed
qed

lemma sorted_fill_table: "sorted (fill_table r s g levels)"
  by (induction levels arbitrary: g) (auto simp: Let_def dest: fill_table_lower)

lemma fill_table_upper: "g \<le> 255 \<Longrightarrow> x \<in> set (fill_table r s g levels) \<Longrightarrow> x \<le> 255"
proof (induction levels arbitrary: g)
  case Nil
  then show ?case by simp
next
  case (Cons i levels)
  have le: "scan r (s ! i) g \<le> 255" using Cons.prems(1) by (rule scan_le)
  from Cons.prems(2) have "x = scan r (s ! i) g \<or> x \<in> set (fill_table r s (scan r (s ! i) g) levels)"
    by (simp add: Let_def)
  with le Cons.IH [OF le] show ?case by auto
qed

text \<open>The entries of the table filled over an interval of levels.\<close>

lemma fill_table_upt_0: "a < b \<Longrightarrow> fill_table r s g [a..<b] ! 0 = scan r (s ! a) g"
  by (simp add: upt_conv_Cons Let_def)

lemma fill_table_upt_Suc:
  "a < b \<Longrightarrow> fill_table r s g [a..<b] ! Suc j = fill_table r s (scan r (s ! a) g) [Suc a..<b] ! j"
  by (simp add: upt_conv_Cons Let_def)

lemma fill_table_resume:
  "a + Suc j < b \<Longrightarrow>
   fill_table r s g [a..<b] ! Suc j = scan r (s ! (a + Suc j)) (fill_table r s g [a..<b] ! j)"
proof (induction j arbitrary: a g)
  case 0
  then show ?case by (simp add: fill_table_upt_Suc fill_table_upt_0)
next
  case (Suc j)
  from Suc.prems have ab: "a < b" and "Suc a + Suc j < b" by simp_all
  from Suc.IH [OF this(2)] ab show ?case
    by (simp add: fill_table_upt_Suc)
qed

lemma length_cumsum_from: "length (cumsum_from acc xs) = length xs"
  by (induction xs arbitrary: acc) simp_all

lemma cumsum_from_nth:
  "k < length xs \<Longrightarrow> cumsum_from acc xs ! k = acc + sum_list (take (Suc k) xs)"
proof (induction xs arbitrary: acc k)
  case Nil
  then show ?case by simp
next
  case (Cons x xs)
  show ?case
  proof (cases k)
    case 0
    then show ?thesis by simp
  next
    case (Suc k')
    with Cons.prems have "k' < length xs" by simp
    from Cons.IH [OF this, of "acc + x"] Suc show ?thesis by simp
  qed
qed

lemma length_cumsum: "length (cumsum xs) = length xs"
  by (simp add: cumsum_def length_cumsum_from)

lemma cumsum_nth: "k < length xs \<Longrightarrow> cumsum xs ! k = sum_list (take (Suc k) xs)"
  by (simp add: cumsum_def cumsum_from_nth)

lemma sum_list_take_mono: "i \<le> j \<Longrightarrow> sum_list (take i xs) \<le> sum_list (take j (xs :: nat list))"
proof -
  assume "i \<le> j"
  then have "take j xs = take i xs @ take (j - i) (drop i xs)"
    by (metis le_add_diff_inverse take_add)
  then show ?thesis by simp
qed

lemma sum_list_take_le: "sum_list (take i xs) \<le> sum_list (xs :: nat list)"
proof -
  have "sum_list xs = sum_list (take i xs) + sum_list (drop i xs)"
    by (metis append_take_drop_id sum_list_append)
  then show ?thesis by simp
qed

lemma length_cdf: "length (cdf hist) = length hist"
  by (simp add: cdf_def Let_def length_cumsum)

lemma cdf_pos:
  assumes "0 < sum_list hist"
  shows "cdf hist = map (\<lambda>c. Fin (of_nat c / of_nat (sum_list hist))) (cumsum hist)"
proof -
  from assms have ne: "sum_list hist \<noteq> 0" by linarith
  have aux: "\<And>t::nat. t \<noteq> 0 \<Longrightarrow>
      (\<lambda>c::nat. if t = 0 then NaN else Fin (of_nat c / of_nat t)) = (\<lambda>c. Fin (of_nat c / of_nat t))"
    by simp
  show ?thesis unfolding cdf_def Let_def by (simp only: aux [OF ne])
qed

lemma cdf_nth:
  assumes "0 < sum_list hist" "k < length hist"
  shows "cdf hist ! k = Fin (of_nat (sum_list (take (Suc k) hist)) / of_nat (sum_list hist))"
proof -
  have "cdf hist ! k = Fin (of_nat (cumsum hist ! k) / of_nat (sum_list hist))"
    using assms(2) by (simp only: cdf_pos [OF assms(1)]) (simp add: length_cumsum)
  with assms(2) show ?thesis by (simp only: cumsum_nth)
qed

lemma cdf_last:
  assumes "0 < sum_list hist" "length hist = Suc n"
  shows "cdf hist ! n = Fin 1"
proof -
  from assms(1) have "sum_list hist \<noteq> 0" by linarith
  then have ne: "(of_nat (sum_list hist) :: rat) \<noteq> 0" by (simp only: of_nat_eq_0_iff not_False_eq_True)
  have "take (Suc n) hist = hist" using assms(2) by simp
  moreover have "n < length hist" using assms(2) by simp
  ultimately have "cdf hist ! n = Fin (of_nat (sum_list hist) / of_nat (sum_list hist))"
    using cdf_nth [OF assms(1), of n] by simp
  also have "\<dots> = Fin 1" by (simp only: divide_self [OF ne])
  finally show ?thesis .
qed

lemma cdf_mono:
  assumes "0 < sum_list hist" "i \<le> j" "j < length hist" "flt_less x (cdf hist ! i)"
  shows "flt_less x (cdf hist ! j)"
proof -
  let ?t = "sum_list hist"
  have le: "sum_list (take (Suc i) hist) \<le> sum_list (take (Suc j) hist)"
    using assms(2) by (intro sum_list_take_mono) simp
  define a :: rat where "a = of_nat (sum_list (take (Suc i) hist)) / of_nat ?t"
  define b :: rat where "b = of_nat (sum_list (take (Suc j) hist)) / of_nat ?t"
  have "(of_nat (sum_list (take (Suc i) hist)) :: rat) \<le> of_nat (sum_list (take (Suc j) hist))"
    using le by (simp only: of_nat_le_iff)
  then have ab: "a \<le> b" unfolding a_def b_def by (rule divide_right_mono) (simp only: of_nat_0_le_iff)
  have i: "cdf hist ! i = Fin a" unfolding a_def
    using assms by (intro cdf_nth) linarith+
  have j: "cdf hist ! j = Fin b" unfolding b_def
    using assms by (intro cdf_nth) linarith+
  show ?thesis
  proof (cases x)
    case NaN
    with assms(4) show ?thesis by simp
  next
    case (Fin q)
    with assms(4) i have "q < a" by simp
    with ab have "q < b" by linarith
    with Fin j show ?thesis by simp
  qed
qed

lemma cdf_le_one:
  assumes "0 < sum_list hist" "i < length hist"
  shows "\<exists>q. cdf hist ! i = Fin q \<and> q \<le> 1"
proof -
  have "sum_list (take (Suc i) hist) \<le> sum_list hist" by (rule sum_list_take_le)
  then have "(of_nat (sum_list (take (Suc i) hist)) :: rat) \<le> of_nat (sum_list hist)"
    by (simp only: of_nat_le_iff)
  moreover have "(0::rat) < of_nat (sum_list hist)"
    using assms(1) by (simp only: of_nat_0_less_iff)
  ultimately have "(of_nat (sum_list (take (Suc i) hist)) :: rat) / of_nat (sum_list hist) \<le> 1"
    by (simp only: divide_le_eq_1_pos)
  with cdf_nth [OF assms] show ?thesis by blast
qed

lemma fill_table_below:
  assumes mono: "\<And>i j x. i \<le> j \<Longrightarrow> j < b \<Longrightarrow> flt_less x (s ! i) \<Longrightarrow> flt_less x (s ! j)"
  shows "a + j < b \<Longrightarrow> \<forall>k<g. flt_less (r ! k) (s ! a) \<Longrightarrow>
         k < fill_table r s g [a..<b] ! j \<Longrightarrow> flt_less (r ! k) (s ! (a + j))"
proof (induction j arbitrary: a g)
  case 0
  then have "k < scan r (s ! a) g" by (simp add: fill_table_upt_0)
  with 0 show ?case
    using scan_below [of g k r "s ! a"] by (cases "k < g") simp_all
next
  case (Suc j)
  let ?g' = "scan r (s ! a) g"
  from Suc.prems have ab: "a < b" and sab: "Suc a < b" and lt: "Suc a + j < b" by simp_all
  have pre: "\<forall>k<?g'. flt_less (r ! k) (s ! Suc a)"
  proof (intro allI impI)
    fix k assume "k < ?g'"
    then have "flt_less (r ! k) (s ! a)"
      using Suc.prems(2) scan_below [of g k r "s ! a"] by (cases "k < g") simp_all
    then show "flt_less (r ! k) (s ! Suc a)"
      using mono [of a "Suc a"] sab by simp
  qed
  from Suc.prems(3) ab have "k < fill_table r s ?g' [Suc a..<b] ! j"
    by (simp add: fill_table_upt_Suc)
  from Suc.IH [OF lt pre this] show ?case by simp
qed

lemma fill_table_nth_le: "g \<le> 255 \<Longrightarrow> j < b - a \<Longrightarrow> fill_table r s g [a..<b] ! j \<le> 255"
  by (rule fill_table_upper [where levels = "[a..<b]" and r = r and s = s and g = g])
     (simp_all add: length_fill_table)

lemma fill_table_nth_scan:
  "j < b \<Longrightarrow> fill_table r s 0 [0..<b] ! j =
     scan r (s ! j) (if j = 0 then 0 else fill_table r s 0 [0..<b] ! (j - 1))"
proof (cases j)
  case 0
  assume "j < b"
  with 0 show ?thesis by (simp add: fill_table_upt_0)
next
  case (Suc j')
  assume "j < b"
  with Suc fill_table_resume [of 0 j' b r s 0] show ?thesis by simp
qed

lemma fill_table_stop:
  assumes "j < b"
  shows "fill_table r s 0 [0..<b] ! j = 255 \<or> \<not> flt_less (r ! (fill_table r s 0 [0..<b] ! j)) (s ! j)"
proof -
  let ?p = "if j = 0 then 0 else fill_table r s 0 [0..<b] ! (j - 1)"
  have "?p \<le> 255" using assms by (auto intro: fill_table_nth_le)
  from scan_stop [OF this, of r "s ! j"] fill_table_nth_scan [OF assms, of r s]
  show ?thesis by simp
qed

lemma lookup_least:
  assumes "length s_hist = 256" "length r_hist = 256" "0 < sum_list s_hist" "0 < sum_list r_hist"
    and "i < 256"
  shows "lookup_table s_hist r_hist ! i \<le> 255"
    and "flt_ge (cdf r_hist ! (lookup_table s_hist r_hist ! i)) (cdf s_hist ! i)"
    and "k < lookup_table s_hist r_hist ! i \<Longrightarrow> flt_less (cdf r_hist ! k) (cdf s_hist ! i)"
proof -
  let ?r = "cdf r_hist" and ?s = "cdf s_hist"
  let ?g = "lookup_table s_hist r_hist ! i"
  have g: "?g = fill_table ?r ?s 0 [0..<256] ! i" by (simp add: lookup_table_def)
  show le: "?g \<le> 255" unfolding g using assms(5) by (intro fill_table_nth_le) simp_all
  have mono: "\<And>i j x. i \<le> j \<Longrightarrow> j < 256 \<Longrightarrow> flt_less x (?s ! i) \<Longrightarrow> flt_less x (?s ! j)"
    using cdf_mono [OF assms(3)] assms(1) by simp
  show "flt_less (?r ! k) (?s ! i)" if "k < ?g"
    using fill_table_below [of 256 ?s 0 i 0 ?r k, OF mono] that assms(5) g by simp
  obtain q where q: "?s ! i = Fin q" "q \<le> 1"
    using cdf_le_one [OF assms(3), of i] assms(1,5) by auto
  obtain p where p: "?r ! ?g = Fin p"
    using cdf_le_one [OF assms(4), of ?g] assms(2) le by auto
  have last: "?r ! 255 = Fin 1" using cdf_last [OF assms(4), of 255] assms(2) by simp
  have "\<not> flt_less (?r ! ?g) (?s ! i)"
  proof (cases "?g = 255")
    case True
    with last q show ?thesis by simp
  next
    case False
    with fill_table_stop [of i 256 ?r ?s] assms(5) g show ?thesis by simp
  qed
  with p q show "flt_ge (?r ! ?g) (?s ! i)" by simp
qed

lemma length_histogram: "length (histogram xs) = 256"
  by (simp add: histogram_def)

lemma histogram_nth: "k < 256 \<Longrightarrow> histogram xs ! k = count_list xs (of_nat k)"
  by (simp add: histogram_def)

lemma histogram_unat: "histogram xs ! unat (v :: 8 word) = count_list xs v"
proof -
  have "unat v < 256" using unsigned_less [of v] by simp
  then show ?thesis by (simp add: histogram_nth)
qed

lemma histogram_pos: "v \<in> set xs \<Longrightarrow> 0 < histogram xs ! unat (v :: 8 word)"
  using count_list_0_iff [of xs v] by (simp add: histogram_unat)

lemma nth_pos_sum_list: "i < length (h :: nat list) \<Longrightarrow> 0 < h ! i \<Longrightarrow> 0 < sum_list h"
proof -
  assume "i < length h" "0 < h ! i"
  then have "h ! i \<le> sum_list h" by (intro member_le_sum_list) auto
  with \<open>0 < h ! i\<close> show ?thesis by linarith
qed

lemma flt_less_irrefl: "\<not> flt_less x x"
  by (cases x) simp_all

lemma flt_less_not_ge: "flt_less x y \<Longrightarrow> \<not> flt_ge x y"
  by (cases x; cases y) simp_all

lemma cdf_strict:
  assumes "0 < sum_list h" "g < i" "i < length h" "0 < h ! i"
  shows "flt_less (cdf h ! g) (cdf h ! i)"
proof -
  let ?t = "sum_list h"
  have "take (Suc i) h = take i h @ [h ! i]" using assms(3) by (rule take_Suc_conv_app_nth)
  then have "sum_list (take (Suc i) h) = sum_list (take i h) + h ! i" by simp
  moreover have "sum_list (take (Suc g) h) \<le> sum_list (take i h)"
    using assms(2) by (intro sum_list_take_mono) simp
  ultimately have lt: "sum_list (take (Suc g) h) < sum_list (take (Suc i) h)"
    using assms(4) by linarith
  have pos: "(0::rat) < of_nat ?t" using assms(1) by (simp only: of_nat_0_less_iff)
  have "(of_nat (sum_list (take (Suc g) h)) :: rat) < of_nat (sum_list (take (Suc i) h))"
    using lt by (simp only: of_nat_less_iff)
  then have "(of_nat (sum_list (take (Suc g) h)) :: rat) / of_nat ?t
             < of_nat (sum_list (take (Suc i) h)) / of_nat ?t"
    using pos by (rule divide_strict_right_mono)
  moreover have "cdf h ! g = Fin (of_nat (sum_list (take (Suc g) h)) / of_nat ?t)"
    using assms by (intro cdf_nth) linarith+
  moreover have "cdf h ! i = Fin (of_nat (sum_list (take (Suc i) h)) / of_nat ?t)"
    using assms by (intro cdf_nth) linarith+
  ultimately show ?thesis by simp
qed

lemma lookup_self:
  assumes "length h = 256" "i < 256" "0 < h ! i"
  shows "lookup_table h h ! i = i"
proof -
  let ?g = "lookup_table h h ! i"
  have pos: "0 < sum_list h" using assms by (intro nth_pos_sum_list [of i]) simp_all
  have ge: "flt_ge (cdf h ! ?g) (cdf h ! i)"
    using lookup_least(2) [OF assms(1) assms(1) pos pos assms(2)] .
  have below: "\<And>k. k < ?g \<Longrightarrow> flt_less (cdf h ! k) (cdf h ! i)"
    using lookup_least(3) [OF assms(1) assms(1) pos pos assms(2)] .
  have "\<not> i < ?g" using below [of i] flt_less_irrefl by blast
  moreover have "\<not> ?g < i"
  proof
    assume "?g < i"
    then have "flt_less (cdf h ! ?g) (cdf h ! i)"
      using assms pos by (intro cdf_strict) simp_all
    with ge show False by (simp add: flt_less_not_ge)
  qed
  ultimately show ?thesis by linarith
qed

lemma mem_flatten: "r < rows A \<Longrightarrow> c < cols A \<Longrightarrow> item A r c \<in> set (flatten A)"
  by (auto simp: flatten_def intro!: bexI [of _ r] image_eqI [of _ _ c])

lemma channel_table_self:
  assumes "v \<in> set (flatten ch)"
  shows "channel_table ch ch ! unat v = unat v"
proof -
  have "unat v < 256" using unsigned_less [of v] by simp
  moreover have "0 < histogram (flatten ch) ! unat v" using assms by (rule histogram_pos)
  ultimately show ?thesis
    unfolding channel_table_def by (intro lookup_self) (simp_all add: length_histogram)
qed

lemma match_channel_self:
  assumes "r < rows ch" "c < cols ch"
  shows "item (match_channel ch ch) r c = item ch r c"
proof -
  have "item ch r c \<in> set (flatten ch)" using assms by (rule mem_flatten)
  then have "channel_table ch ch ! unat (item ch r c) = unat (item ch r c)"
    by (rule channel_table_self)
  then show ?thesis by (simp add: match_channel_def Let_def)
qed

text \<open>
  Claim C5, as amended. Matching an image against itself returns an image of the same shape
  with every pixel unchanged, and in each channel the lookup table maps every intensity
  level that occurs in the channel to itself. (Levels that do not occur need not map to
  themselves, see below.)
\<close>

theorem match_histograms_self:
  "rows (match_histograms img img) = rows img \<and> cols (match_histograms img img) = cols img \<and>
   (\<forall>r<rows img. \<forall>c<cols img. item (match_histograms img img) r c = item img r c) \<and>
   (\<forall>ch \<in> {fst (split img), fst (snd (split img)), snd (snd (split img))}.
      \<forall>v \<in> set (flatten ch). channel_table ch ch ! unat v = unat v)"
proof (intro conjI allI impI ballI)
  show "rows (match_histograms img img) = rows img"
    by (simp add: match_histograms_def split_def merge_def match_channel_def Let_def)
  show "cols (match_histograms img img) = cols img"
    by (simp add: match_histograms_def split_def merge_def match_channel_def Let_def)
next
  fix r c assume rc: "r < rows img" "c < cols img"
  obtain sb sg sr where sp: "split img = (sb, sg, sr)" by (cases "split img") auto
  then have shape: "rows sb = rows img" "cols sb = cols img" "rows sg = rows img" "cols sg = cols img"
      "rows sr = rows img" "cols sr = cols img"
    and px: "item img r c = (item sb r c, item sg r c, item sr r c)"
    by (auto simp: split_def)
  have "item (match_histograms img img) r c =
        (item (match_channel sb sb) r c, item (match_channel sg sg) r c, item (match_channel sr sr) r c)"
    by (simp add: match_histograms_def sp merge_def)
  also have "\<dots> = (item sb r c, item sg r c, item sr r c)"
    using rc shape by (simp add: match_channel_self)
  finally show "item (match_histograms img img) r c = item img r c" using px by simp
next
  fix ch :: "8 word ndarray" and v assume "v \<in> set (flatten ch)"
  then show "channel_table ch ch ! unat v = unat v" by (rule channel_table_self)
qed

text \<open>The theorem at a one-pixel image.\<close>

theorem match_histograms_self_witness:
  "item (match_histograms (one_pixel (5, 6, 7)) (one_pixel (5, 6, 7))) 0 0 = (5, 6, 7)"
  using match_histograms_self [of "one_pixel (5, 6, 7)"] by (simp add: one_pixel_def)

text \<open>
  The table of a self-match is not the identity: for the one-pixel image of intensity 5,
  level 1 does not occur, its cumulative frequency is that of level 0, and the table sends
  it to 0.
\<close>

theorem self_table_not_identity:
  "channel_table (fst (split (one_pixel (5, 5, 5)))) (fst (split (one_pixel (5, 5, 5)))) ! 1 = 0"
  by code_simp

lemma sum_list_histogram_pos: "xs \<noteq> [] \<Longrightarrow> 0 < sum_list (histogram xs)"
proof -
  assume "xs \<noteq> []"
  then obtain v where v: "v \<in> set xs" by (cases xs) auto
  have "unat v < 256" using unsigned_less [of v] by simp
  then have "unat v < length (histogram xs)" by (simp add: length_histogram)
  from nth_pos_sum_list [OF this histogram_pos [OF v]] show ?thesis .
qed

text \<open>
  Claim C3. For the histograms of two channels that have at least one pixel each (256 bins,
  a positive total) and every level \<open>i\<close> of \<open>0..255\<close>, the table entry \<open>g\<close> for \<open>i\<close> is at most
  255, the reference CDF at \<open>g\<close> is at least the source CDF at \<open>i\<close>, and at no smaller level it
  is: \<open>g\<close> is the smallest such level, or 255 if there were none. The entry is what the scan
  for level \<open>i\<close> returns when started from the entry for level \<open>i - 1\<close> (from 0 for level 0).
\<close>

theorem lookup_table_smallest_level:
  assumes "length s_hist = 256" and "length r_hist = 256"
    and "0 < sum_list s_hist" and "0 < sum_list r_hist" and "i < 256"
  shows "lookup_table s_hist r_hist ! i \<le> 255 \<and>
     flt_ge (cdf r_hist ! (lookup_table s_hist r_hist ! i)) (cdf s_hist ! i) \<and>
     (\<forall>g'<lookup_table s_hist r_hist ! i. \<not> flt_ge (cdf r_hist ! g') (cdf s_hist ! i)) \<and>
     lookup_table s_hist r_hist ! i =
       (if \<exists>g'<256. flt_ge (cdf r_hist ! g') (cdf s_hist ! i)
        then LEAST g'. flt_ge (cdf r_hist ! g') (cdf s_hist ! i) else 255) \<and>
     lookup_table s_hist r_hist ! i =
       scan (cdf r_hist) (cdf s_hist ! i) (if i = 0 then 0 else lookup_table s_hist r_hist ! (i - 1))"
proof -
  let ?g = "lookup_table s_hist r_hist ! i"
  let ?P = "\<lambda>g'. flt_ge (cdf r_hist ! g') (cdf s_hist ! i)"
  have le: "?g \<le> 255" using lookup_least(1) [OF assms] .
  have ge: "?P ?g" using lookup_least(2) [OF assms] .
  have below: "\<forall>g'<?g. \<not> ?P g'"
    using lookup_least(3) [OF assms] flt_less_not_ge by blast
  have "(LEAST g'. ?P g') = ?g"
  proof (rule Least_equality)
    show "?P ?g" by (rule ge)
    fix y assume "?P y"
    with below show "?g \<le> y" by (meson not_le_imp_less)
  qed
  moreover have "\<exists>g'<256. ?P g'" using le ge by (intro exI [of _ ?g]) simp
  ultimately have least: "?g = (if \<exists>g'<256. ?P g' then LEAST g'. ?P g' else 255)" by simp
  have "?g = scan (cdf r_hist) (cdf s_hist ! i) (if i = 0 then 0 else lookup_table s_hist r_hist ! (i - 1))"
    unfolding lookup_table_def using assms(5) by (rule fill_table_nth_scan)
  with le ge below least show ?thesis by blast
qed

text \<open>The theorem at the histograms of the channels \<open>[5]\<close> and \<open>[7]\<close>, level 5.\<close>

theorem lookup_table_smallest_level_witness:
  "lookup_table (histogram [5]) (histogram [7]) ! 5 \<le> 255 \<and>
   flt_ge (cdf (histogram [7]) ! (lookup_table (histogram [5]) (histogram [7]) ! 5))
          (cdf (histogram [5]) ! 5) \<and>
   lookup_table (histogram [5]) (histogram [7]) ! 5 =
     scan (cdf (histogram [7])) (cdf (histogram [5]) ! 5)
       (lookup_table (histogram [5]) (histogram [7]) ! 4)"
proof -
  have len: "length (histogram [5]) = 256" "length (histogram [7]) = 256"
    by (rule length_histogram)+
  have pos: "0 < sum_list (histogram [5])" "0 < sum_list (histogram [7])"
    by (rule sum_list_histogram_pos, simp)+
  have lt: "(5::nat) < 256" by simp
  note t = lookup_table_smallest_level [OF len pos lt]
  have prev: "\<And>X :: nat list. (if (5::nat) = 0 then 0 else X ! (5 - 1)) = X ! 4" by simp
  from t have "lookup_table (histogram [5]) (histogram [7]) ! 5 =
       scan (cdf (histogram [7])) (cdf (histogram [5]) ! 5)
         (if (5::nat) = 0 then 0 else lookup_table (histogram [5]) (histogram [7]) ! (5 - 1))"
    by blast
  then have "lookup_table (histogram [5]) (histogram [7]) ! 5 =
       scan (cdf (histogram [7])) (cdf (histogram [5]) ! 5)
         (lookup_table (histogram [5]) (histogram [7]) ! 4)"
    by (simp only: prev)
  with t show ?thesis by blast
qed

text \<open>
  Claim C4. For every pair of histograms the lookup table has 256 entries and is
  non-decreasing: for all levels \<open>i \<le> j\<close>, the entry for \<open>i\<close> is at most the entry for \<open>j\<close>.
\<close>

theorem lookup_table_monotone:
  "length (lookup_table s_hist r_hist) = 256 \<and> sorted (lookup_table s_hist r_hist) \<and>
   (\<forall>i j. i \<le> j \<and> j < 256 \<longrightarrow> lookup_table s_hist r_hist ! i \<le> lookup_table s_hist r_hist ! j)"
proof -
  have len: "length (lookup_table s_hist r_hist) = 256"
    by (simp add: lookup_table_def length_fill_table)
  have srt: "sorted (lookup_table s_hist r_hist)"
    unfolding lookup_table_def by (rule sorted_fill_table)
  from srt len show ?thesis by (auto simp: sorted_iff_nth_mono)
qed

text \<open>The theorem at levels 3 and 200.\<close>

theorem lookup_table_monotone_witness:
  "lookup_table (histogram [5]) (histogram [7]) ! 3 \<le> lookup_table (histogram [5]) (histogram [7]) ! 200"
proof -
  have "(3::nat) \<le> 200 \<and> (200::nat) < 256" by simp
  with lookup_table_monotone [of "histogram [5]" "histogram [7]"] show ?thesis by blast
qed

section \<open>Properties of the triangulation builder\<close>

lemma first_near_Some:
  "first_near p points k = Some i \<Longrightarrow>
     k \<le> i \<and> i - k < length points \<and>
     \<bar>fst p - fst (points ! (i - k))\<bar> < 1 \<and> \<bar>snd p - snd (points ! (i - k))\<bar> < 1"
proof (induction points arbitrary: k)
  case Nil
  then show ?case by simp
next
  case (Cons point points)
  show ?case
  proof (cases "\<bar>fst p - fst point\<bar> < 1 \<and> \<bar>snd p - snd point\<bar> < 1")
    case True
    with Cons.prems show ?thesis by simp
  next
    case False
    with Cons.prems have "first_near p points (k + 1) = Some i" by simp
    from Cons.IH [OF this] have *: "k + 1 \<le> i" "i - (k + 1) < length points"
      "\<bar>fst p - fst (points ! (i - (k + 1)))\<bar> < 1" "\<bar>snd p - snd (points ! (i - (k + 1)))\<bar> < 1"
      by simp_all
    from *(1) have "i - k = Suc (i - (k + 1))" by simp
    with * show ?thesis by simp
  qed
qed

lemma first_near_0:
  "first_near p points 0 = Some i \<Longrightarrow>
     i < length points \<and> \<bar>fst p - fst (points ! i)\<bar> < 1 \<and> \<bar>snd p - snd (points ! i)\<bar> < 1"
  using first_near_Some [of p points 0 i] by simp

lemma first_near_Nil: "first_near p [] k = None"
  by simp

text \<open>The list \<open>ind\<close> has three entries exactly when every vertex has a near point.\<close>

lemma resolve_three:
  "resolve points [p1, p2, p3] =
     (case first_near p1 points 0 of None \<Rightarrow> [] | Some a \<Rightarrow> [a]) @
     (case first_near p2 points 0 of None \<Rightarrow> [] | Some b \<Rightarrow> [b]) @
     (case first_near p3 points 0 of None \<Rightarrow> [] | Some c \<Rightarrow> [c])"
  by (simp add: resolve_def List.map_filter_def split: option.splits)

lemma resolve_length3:
  "length (resolve points [p1, p2, p3]) = 3 \<longleftrightarrow>
     (\<exists>a b c. first_near p1 points 0 = Some a \<and> first_near p2 points 0 = Some b \<and>
              first_near p3 points 0 = Some c)"
  by (auto simp: resolve_three split: option.splits)

lemma resolve_all:
  "first_near p1 points 0 = Some a \<Longrightarrow> first_near p2 points 0 = Some b \<Longrightarrow>
   first_near p3 points 0 = Some c \<Longrightarrow> resolve points [p1, p2, p3] = [a, b, c]"
  by (simp add: resolve_three)

lemma delaunay_loop_Cons:
  "delaunay_loop rect points (t # ts) =
     (case candidate rect points t of None \<Rightarrow> [] | Some tri \<Rightarrow> [tri]) @ delaunay_loop rect points ts"
proof -
  obtain t0 t1 t2 t3 t4 t5 where t: "t = (t0, t1, t2, t3, t4, t5)" by (cases t) auto
  show ?thesis
  proof (cases "in_rect rect (t0, t1) \<and> in_rect rect (t2, t3) \<and> in_rect rect (t4, t5)")
    case False
    then show ?thesis unfolding t by (auto simp: candidate_def)
  next
    case inside: True
    show ?thesis
    proof (cases "length (resolve points [(t0, t1), (t2, t3), (t4, t5)]) = 3")
      case True
      then obtain a b c where abc: "first_near (t0, t1) points 0 = Some a"
          "first_near (t2, t3) points 0 = Some b" "first_near (t4, t5) points 0 = Some c"
        unfolding resolve_length3 by blast
      then have "resolve points [(t0, t1), (t2, t3), (t4, t5)] = [a, b, c]" by (rule resolve_all)
      with inside abc show ?thesis unfolding t by (simp add: candidate_def Let_def)
    next
      case False
      then have "\<not> (\<exists>a b c. first_near (t0, t1) points 0 = Some a \<and>
          first_near (t2, t3) points 0 = Some b \<and> first_near (t4, t5) points 0 = Some c)"
        unfolding resolve_length3 .
      then have "candidate rect points t = None"
        unfolding t using inside by (auto simp: candidate_def split: option.splits)
      with inside False show ?thesis unfolding t by (simp add: Let_def)
    qed
  qed
qed

lemma delaunay_loop_map_filter:
  "delaunay_loop rect points ts = List.map_filter (candidate rect points) ts"
  by (induction ts) (simp_all add: delaunay_loop_Cons List.map_filter_simps split: option.splits)

lemma set_delaunay_loop:
  "tri \<in> set (delaunay_loop rect points ts) \<longleftrightarrow> (\<exists>t\<in>set ts. candidate rect points t = Some tri)"
proof (induction ts)
  case Nil
  then show ?case by simp
next
  case (Cons t ts)
  show ?case
  proof (cases "candidate rect points t")
    case None
    with Cons show ?thesis by (simp add: delaunay_loop_Cons)
  next
    case (Some tri')
    with Cons show ?thesis by (simp add: delaunay_loop_Cons) blast
  qed
qed

lemma candidate_SomeD:
  assumes "candidate rect points (t0, t1, t2, t3, t4, t5) = Some (a, b, c)"
  shows "in_rect rect (t0, t1)" "in_rect rect (t2, t3)" "in_rect rect (t4, t5)"
    "first_near (t0, t1) points 0 = Some a" "first_near (t2, t3) points 0 = Some b"
    "first_near (t4, t5) points 0 = Some c"
  using assms by (auto simp: candidate_def split: if_splits option.splits)

lemma candidate_outside:
  "\<not> (in_rect rect (t0, t1) \<and> in_rect rect (t2, t3) \<and> in_rect rect (t4, t5)) \<Longrightarrow>
   candidate rect points (t0, t1, t2, t3, t4, t5) = None"
  by (auto simp: candidate_def)

lemma delaunay_loop_filter:
  "delaunay_loop rect points (filter P ts) = delaunay_loop rect points ts"
  if "\<And>t. t \<in> set ts \<Longrightarrow> \<not> P t \<Longrightarrow> candidate rect points t = None"
  using that by (induction ts) (simp_all add: delaunay_loop_Cons)

lemma in_rect_iff:
  "in_rect (x, y, w, h) (a, b) \<longleftrightarrow>
     of_int x \<le> a \<and> of_int y \<le> b \<and> a < of_int (x + w) \<and> b < of_int (y + h)"
  by (simp add: in_rect_def)

lemma near_integral:
  fixes a b :: rat
  assumes "a \<in> \<int>" "b \<in> \<int>" "\<bar>a - b\<bar> < 1"
  shows "a = b"
proof -
  from assms(1) obtain m where m: "a = of_int m" by (rule Ints_cases)
  from assms(2) obtain n where n: "b = of_int n" by (rule Ints_cases)
  have "\<bar>(of_int (m - n) :: rat)\<bar> < 1" using assms(3) by (simp add: m n)
  then have "\<bar>m - n\<bar> < 1" by simp
  with m n show ?thesis by simp
qed

lemma gdt_Inr:
  "get_delaunay_triangles cv rect points = Inr tris \<longleftrightarrow>
     (\<exists>ts. subdiv2d cv rect points = Inr ts \<and> tris = delaunay_loop rect points ts)"
  by (auto simp: get_delaunay_triangles_def split: sum.splits)

lemma gdt_Inl:
  "get_delaunay_triangles cv rect points = Inl e \<longleftrightarrow> subdiv2d cv rect points = Inl e"
  by (auto simp: get_delaunay_triangles_def split: sum.splits)

lemma length_delaunay_loop: "length (delaunay_loop rect points ts) \<le> length ts"
  by (induction ts) (auto simp: delaunay_loop_Cons split: option.splits)

lemma delaunay_loop_no_points: "delaunay_loop rect [] ts = []"
  by (induction ts) (auto simp: delaunay_loop_Cons candidate_def split: option.splits)

text \<open>
  Claim C7. Every index triple that \<^verbatim>\<open>get_delaunay_triangles\<close> returns comes from a triangle of
  the library's list all three of whose vertices pass the test of lines 58 to 60 (inside
  the bounding region \<open>rect\<close>), and whose vertices resolve to the three indices. A triangle
  with a vertex outside the region contributes nothing: the result is the one computed
  from the triangles inside alone.
\<close>

theorem triangles_inside_region:
  assumes "get_delaunay_triangles cv rect points = Inr tris"
  shows "(\<forall>tri\<in>set tris. \<exists>ts t0 t1 t2 t3 t4 t5.
            subdiv2d cv rect points = Inr ts \<and> (t0, t1, t2, t3, t4, t5) \<in> set ts \<and>
            in_rect rect (t0, t1) \<and> in_rect rect (t2, t3) \<and> in_rect rect (t4, t5) \<and>
            first_near (t0, t1) points 0 = Some (fst tri) \<and>
            first_near (t2, t3) points 0 = Some (fst (snd tri)) \<and>
            first_near (t4, t5) points 0 = Some (snd (snd tri))) \<and>
         (\<forall>ts. subdiv2d cv rect points = Inr ts \<longrightarrow>
            tris = delaunay_loop rect points
                     (filter (\<lambda>(t0, t1, t2, t3, t4, t5).
                        in_rect rect (t0, t1) \<and> in_rect rect (t2, t3) \<and> in_rect rect (t4, t5)) ts))"
proof (intro conjI ballI allI impI)
  fix tri assume tri: "tri \<in> set tris"
  from assms obtain ts where ts: "subdiv2d cv rect points = Inr ts"
    and tris: "tris = delaunay_loop rect points ts"
    unfolding gdt_Inr by blast
  from tri tris have "tri \<in> set (delaunay_loop rect points ts)" by simp
  then obtain t where t: "t \<in> set ts" "candidate rect points t = Some tri"
    unfolding set_delaunay_loop by blast
  obtain t0 t1 t2 t3 t4 t5 where t6: "t = (t0, t1, t2, t3, t4, t5)" by (cases t) auto
  obtain a b c where abc: "tri = (a, b, c)" by (cases tri) auto
  note d = candidate_SomeD [OF t(2) [unfolded t6 abc]]
  have "subdiv2d cv rect points = Inr ts \<and> (t0, t1, t2, t3, t4, t5) \<in> set ts \<and>
            in_rect rect (t0, t1) \<and> in_rect rect (t2, t3) \<and> in_rect rect (t4, t5) \<and>
            first_near (t0, t1) points 0 = Some (fst tri) \<and>
            first_near (t2, t3) points 0 = Some (fst (snd tri)) \<and>
            first_near (t4, t5) points 0 = Some (snd (snd tri))"
    using ts t(1) d unfolding t6 abc by simp
  then show "\<exists>ts t0 t1 t2 t3 t4 t5.
            subdiv2d cv rect points = Inr ts \<and> (t0, t1, t2, t3, t4, t5) \<in> set ts \<and>
            in_rect rect (t0, t1) \<and> in_rect rect (t2, t3) \<and> in_rect rect (t4, t5) \<and>
            first_near (t0, t1) points 0 = Some (fst tri) \<and>
            first_near (t2, t3) points 0 = Some (fst (snd tri)) \<and>
            first_near (t4, t5) points 0 = Some (snd (snd tri))"
    by (intro exI)
next
  fix ts assume ts: "subdiv2d cv rect points = Inr ts"
  let ?P = "\<lambda>(t0, t1, t2, t3, t4, t5).
              in_rect rect (t0, t1) \<and> in_rect rect (t2, t3) \<and> in_rect rect (t4, t5)"
  have none: "candidate rect points t = None" if "\<not> ?P t" for t
  proof -
    obtain t0 t1 t2 t3 t4 t5 where t6: "t = (t0, t1, t2, t3, t4, t5)" by (cases t) auto
    from that have "\<not> (in_rect rect (t0, t1) \<and> in_rect rect (t2, t3) \<and> in_rect rect (t4, t5))"
      unfolding t6 by simp
    then show ?thesis unfolding t6 by (rule candidate_outside)
  qed
  have "delaunay_loop rect points (filter ?P ts) = delaunay_loop rect points ts"
    by (rule delaunay_loop_filter) (rule none)
  moreover from assms ts have "tris = delaunay_loop rect points ts"
    unfolding gdt_Inr by simp
  ultimately show "tris = delaunay_loop rect points (filter ?P ts)" by simp
qed

lemma stub_subdiv: "subdiv2d (stub_cv d ts s c p) rect points = Inr ts"
  by (simp add: stub_cv_def)

text \<open>
  The theorem at three points in the region \<open>(0, 0, 10, 10)\<close> and a library list of their
  triangle and a triangle with an auxiliary vertex at \<open>(-30, -30)\<close>.
\<close>

theorem triangles_inside_region_witness:
  "get_delaunay_triangles (stub_cv no_face [(1, 1, 5, 1, 1, 5), (-30, -30, 1, 1, 5, 1)] False False (0, 0, 0))
     (0, 0, 10, 10) [(1, 1), (5, 1), (1, 5)] = Inr [(0, 1, 2)] \<and>
   [(0, 1, 2)] = delaunay_loop (0, 0, 10, 10) [(1, 1), (5, 1), (1, 5)]
      (filter (\<lambda>(t0, t1, t2, t3, t4, t5). in_rect (0, 0, 10, 10) (t0, t1) \<and>
                 in_rect (0, 0, 10, 10) (t2, t3) \<and> in_rect (0, 0, 10, 10) (t4, t5))
         [(1, 1, 5, 1, 1, 5), (-30, -30, 1, 1, 5, 1)])"
proof -
  let ?cv = "stub_cv no_face [(1, 1, 5, 1, 1, 5), (-30, -30, 1, 1, 5, 1)] False False (0, 0, 0)"
  have run: "get_delaunay_triangles ?cv (0, 0, 10, 10) [(1, 1), (5, 1), (1, 5)] = Inr [(0, 1, 2)]"
    by (simp add: get_delaunay_triangles_def stub_subdiv in_rect_def resolve_def List.map_filter_def)
  have lib: "subdiv2d ?cv (0, 0, 10, 10) [(1, 1), (5, 1), (1, 5)]
             = Inr [(1, 1, 5, 1, 1, 5), (-30, -30, 1, 1, 5, 1)]"
    by (rule stub_subdiv)
  from triangles_inside_region [OF run] lib run show ?thesis by blast
qed

text \<open>
  Claim C8, as amended. Every triangle in the output consists of three indices into the
  point list, each the first point less than 1.0 away from its vertex in both axes; the
  three indices need not be distinct. They are distinct whenever the points and the
  vertices have integer coordinates and the vertices are distinct. A candidate triangle
  with a vertex that resolves to no index is dropped.
\<close>

theorem triangle_indices:
  assumes "get_delaunay_triangles cv rect points = Inr tris" and "(a, b, c) \<in> set tris"
  shows "a < length points \<and> b < length points \<and> c < length points \<and>
     (\<exists>ts t0 t1 t2 t3 t4 t5.
        subdiv2d cv rect points = Inr ts \<and> (t0, t1, t2, t3, t4, t5) \<in> set ts \<and>
        first_near (t0, t1) points 0 = Some a \<and> first_near (t2, t3) points 0 = Some b \<and>
        first_near (t4, t5) points 0 = Some c \<and>
        ((\<forall>p\<in>set points. fst p \<in> \<int> \<and> snd p \<in> \<int>) \<and> {t0, t1, t2, t3, t4, t5} \<subseteq> \<int> \<longrightarrow>
           ((t0, t1) \<noteq> (t2, t3) \<longrightarrow> a \<noteq> b) \<and> ((t0, t1) \<noteq> (t4, t5) \<longrightarrow> a \<noteq> c) \<and>
           ((t2, t3) \<noteq> (t4, t5) \<longrightarrow> b \<noteq> c))) \<and>
     (\<forall>ts t0 t1 t2 t3 t4 t5.
        first_near (t0, t1) points 0 = None \<or> first_near (t2, t3) points 0 = None \<or>
        first_near (t4, t5) points 0 = None \<longrightarrow>
        delaunay_loop rect points ((t0, t1, t2, t3, t4, t5) # ts) = delaunay_loop rect points ts)"
proof -
  from assms(1) obtain ts where ts: "subdiv2d cv rect points = Inr ts"
    and tris: "tris = delaunay_loop rect points ts"
    unfolding gdt_Inr by blast
  from assms(2) tris have "(a, b, c) \<in> set (delaunay_loop rect points ts)" by simp
  then obtain t where t: "t \<in> set ts" "candidate rect points t = Some (a, b, c)"
    unfolding set_delaunay_loop by blast
  obtain t0 t1 t2 t3 t4 t5 where t6: "t = (t0, t1, t2, t3, t4, t5)" by (cases t) auto
  note d = candidate_SomeD [OF t(2) [unfolded t6]]
  note na = first_near_0 [OF d(4)] and nb = first_near_0 [OF d(5)] and nc = first_near_0 [OF d(6)]
  have distinct: "i \<noteq> j"
    if "first_near (u, v) points 0 = Some i" "first_near (u', v') points 0 = Some j"
      "(u, v) \<noteq> (u', v')" "\<forall>p\<in>set points. fst p \<in> \<int> \<and> snd p \<in> \<int>"
      "u \<in> \<int>" "v \<in> \<int>" "u' \<in> \<int>" "v' \<in> \<int>" for u v u' v' i j
  proof
    assume "i = j"
    note ni = first_near_0 [OF that(1)] and nj = first_near_0 [OF that(2) [folded \<open>i = j\<close>]]
    from ni have "points ! i \<in> set points" by simp
    with that(4) have pi: "fst (points ! i) \<in> \<int>" "snd (points ! i) \<in> \<int>" by blast+
    have "u = fst (points ! i)" "v = snd (points ! i)"
      using ni pi that(5,6) by (auto intro: near_integral)
    moreover have "u' = fst (points ! i)" "v' = snd (points ! i)"
      using nj pi that(7,8) by (auto intro: near_integral)
    ultimately show False using that(3) by simp
  qed
  have part1: "\<exists>ts t0 t1 t2 t3 t4 t5.
        subdiv2d cv rect points = Inr ts \<and> (t0, t1, t2, t3, t4, t5) \<in> set ts \<and>
        first_near (t0, t1) points 0 = Some a \<and> first_near (t2, t3) points 0 = Some b \<and>
        first_near (t4, t5) points 0 = Some c \<and>
        ((\<forall>p\<in>set points. fst p \<in> \<int> \<and> snd p \<in> \<int>) \<and> {t0, t1, t2, t3, t4, t5} \<subseteq> \<int> \<longrightarrow>
           ((t0, t1) \<noteq> (t2, t3) \<longrightarrow> a \<noteq> b) \<and> ((t0, t1) \<noteq> (t4, t5) \<longrightarrow> a \<noteq> c) \<and>
           ((t2, t3) \<noteq> (t4, t5) \<longrightarrow> b \<noteq> c))"
  proof (intro exI conjI impI)
    show "subdiv2d cv rect points = Inr ts" by (rule ts)
    show "(t0, t1, t2, t3, t4, t5) \<in> set ts" using t(1) unfolding t6 .
    show "first_near (t0, t1) points 0 = Some a" "first_near (t2, t3) points 0 = Some b"
      "first_near (t4, t5) points 0 = Some c" by (rule d)+
  next
    assume h: "(\<forall>p\<in>set points. fst p \<in> \<int> \<and> snd p \<in> \<int>) \<and> {t0, t1, t2, t3, t4, t5} \<subseteq> \<int>"
      and ne: "(t0, t1) \<noteq> (t2, t3)"
    from h show "a \<noteq> b" by (intro distinct [OF d(4) d(5) ne]) simp_all
  next
    assume h: "(\<forall>p\<in>set points. fst p \<in> \<int> \<and> snd p \<in> \<int>) \<and> {t0, t1, t2, t3, t4, t5} \<subseteq> \<int>"
      and ne: "(t0, t1) \<noteq> (t4, t5)"
    from h show "a \<noteq> c" by (intro distinct [OF d(4) d(6) ne]) simp_all
  next
    assume h: "(\<forall>p\<in>set points. fst p \<in> \<int> \<and> snd p \<in> \<int>) \<and> {t0, t1, t2, t3, t4, t5} \<subseteq> \<int>"
      and ne: "(t2, t3) \<noteq> (t4, t5)"
    from h show "b \<noteq> c" by (intro distinct [OF d(5) d(6) ne]) simp_all
  qed
  have part2: "\<forall>ts t0 t1 t2 t3 t4 t5.
        first_near (t0, t1) points 0 = None \<or> first_near (t2, t3) points 0 = None \<or>
        first_near (t4, t5) points 0 = None \<longrightarrow>
        delaunay_loop rect points ((t0, t1, t2, t3, t4, t5) # ts) = delaunay_loop rect points ts"
    by (auto simp: delaunay_loop_Cons candidate_def split: option.splits)
  from na nb nc part1 part2 show ?thesis by blast
qed

text \<open>The theorem at a triangle of three integer points.\<close>

theorem triangle_indices_witness:
  "get_delaunay_triangles (stub_cv no_face [(2, 2, 7, 2, 2, 7)] False False (0, 0, 0))
     (0, 0, 10, 10) [(2, 2), (7, 2), (2, 7)] = Inr [(0, 1, 2)] \<and>
   (0::nat) < length [(2, 2), (7, 2), (2 :: rat, 7 :: rat)] \<and>
   (1::nat) < length [(2, 2), (7, 2), (2 :: rat, 7 :: rat)] \<and>
   (2::nat) < length [(2, 2), (7, 2), (2 :: rat, 7 :: rat)]"
proof -
  let ?cv = "stub_cv no_face [(2, 2, 7, 2, 2, 7)] False False (0, 0, 0)"
  have run: "get_delaunay_triangles ?cv (0, 0, 10, 10) [(2, 2), (7, 2), (2, 7)] = Inr [(0, 1, 2)]"
    by (simp add: get_delaunay_triangles_def stub_subdiv in_rect_def resolve_def List.map_filter_def)
  have mem: "(0, 1, 2) \<in> set [(0::nat, 1::nat, 2::nat)]" by simp
  from triangle_indices [OF run mem] run show ?thesis by blast
qed

text \<open>
  Three points that are not collinear and their triangle, as the library returns it: every
  vertex is less than 1.0 away from point 0, the three vertices resolve to index 0, the
  list \<open>ind\<close> has three entries, and the triple \<open>(0, 0, 0)\<close> is kept.
\<close>

theorem triangle_indices_not_distinct:
  "get_delaunay_triangles (stub_cv no_face [(0, 0, 1 / 2, 0, 0, 1 / 2)] False False (0, 0, 0))
     (0, 0, 10, 10) [(0, 0), (1 / 2, 0), (0, 1 / 2)] = Inr [(0, 0, 0)]"
  by (simp add: get_delaunay_triangles_def stub_subdiv in_rect_def resolve_def List.map_filter_def)

text \<open>
  Claim C9, as amended. \<^verbatim>\<open>get_delaunay_triangles\<close> raises no error of its own: it fails exactly
  when the library's subdivision fails, with the library's error, whatever the number of
  points and whether or not they are collinear; whenever the library returns a triangle
  list it returns normally, with at most one triple per triangle, and for an empty point
  list the result is empty.
\<close>

theorem triangulation_failure:
  "(\<forall>e. get_delaunay_triangles cv rect points = Inl e \<longleftrightarrow> subdiv2d cv rect points = Inl e) \<and>
   (\<forall>ts. subdiv2d cv rect points = Inr ts \<longrightarrow>
      (\<exists>tris. get_delaunay_triangles cv rect points = Inr tris \<and> length tris \<le> length ts)) \<and>
   (\<forall>ts. subdiv2d cv rect [] = Inr ts \<longrightarrow> get_delaunay_triangles cv rect [] = Inr [])"
proof (intro conjI allI impI)
  fix e show "get_delaunay_triangles cv rect points = Inl e \<longleftrightarrow> subdiv2d cv rect points = Inl e"
    by (rule gdt_Inl)
next
  fix ts assume "subdiv2d cv rect points = Inr ts"
  then have "get_delaunay_triangles cv rect points = Inr (delaunay_loop rect points ts)"
    unfolding gdt_Inr by blast
  then show "\<exists>tris. get_delaunay_triangles cv rect points = Inr tris \<and> length tris \<le> length ts"
    using length_delaunay_loop [of rect points ts] by blast
next
  fix ts assume "subdiv2d cv rect [] = Inr ts"
  then have "get_delaunay_triangles cv rect [] = Inr (delaunay_loop rect [] ts)"
    unfolding gdt_Inr by blast
  then show "get_delaunay_triangles cv rect [] = Inr []"
    by (simp only: delaunay_loop_no_points)
qed

text \<open>The theorem at an empty point list.\<close>

theorem triangulation_failure_witness:
  "get_delaunay_triangles (stub_cv no_face [(-30, -30, 1, 1, 2, 2)] False False (0, 0, 0))
     (0, 0, 10, 10) [] = Inr []"
proof -
  have "subdiv2d (stub_cv no_face [(-30, -30, 1, 1, 2, 2)] False False (0, 0, 0)) (0, 0, 10, 10) []
        = Inr [(-30, -30, 1, 1, 2, 2)]"
    by (rule stub_subdiv)
  with triangulation_failure
         [of "stub_cv no_face [(-30, -30, 1, 1, 2, 2)] False False (0, 0, 0)" "(0, 0, 10, 10)"]
  show ?thesis by blast
qed

text \<open>
  Two points, and four collinear points, with a library that finds no triangle: the
  function returns the empty list in both cases.
\<close>

theorem triangulation_returns_normally:
  "get_delaunay_triangles (stub_cv no_face [] False False (0, 0, 0)) (0, 0, 10, 10) [(1, 1), (2, 2)]
     = Inr [] \<and>
   get_delaunay_triangles (stub_cv no_face [] False False (0, 0, 0)) (0, 0, 10, 10)
     [(1, 1), (2, 2), (3, 3), (4, 4)] = Inr []"
  by (simp add: get_delaunay_triangles_def stub_subdiv)

section \<open>Properties of the triangle compositor\<close>

lemma slice_bound_nonneg: "0 \<le> i \<Longrightarrow> slice_bound i n = min (nat i) n"
  by (simp add: slice_bound_def)

lemma slice_bound_le: "slice_bound i n \<le> n"
  by (auto simp: slice_bound_def)

lemma bidx_less: "i < n \<Longrightarrow> bidx n i = i"
  by (simp add: bidx_def)

lemma bdim_same: "bdim n n = Some n"
  by (simp add: bdim_def)

lemma axis_exact:
  assumes "bdim hs n = Some hk" "bdim hk n = Some hb" "hb = hs \<or> hb = 1" "hs \<le> n" "0 < hs"
  shows "hs = n \<and> hk = n \<and> hb = n"
  using assms by (auto simp: bdim_def split: if_splits)

lemma np_binop_Inr:
  assumes "np_binop f A B = Inr C"
  shows "bdim (rows A) (rows B) = Some (rows C)" "bdim (cols A) (cols B) = Some (cols C)"
    "item C r c = f (item A (bidx (rows A) r) (bidx (cols A) c)) (item B (bidx (rows B) r) (bidx (cols B) c))"
  using assms by (auto simp: np_binop_def split: option.splits)

lemma np_setslice_Inr:
  assumes "np_setslice A r0 r1 c0 c1 V = Inr A'"
  shows "rows A' = rows A" "cols A' = cols A"
    "rows V = slice_bound r1 (rows A) - slice_bound r0 (rows A) \<or> rows V = 1"
    "cols V = slice_bound c1 (cols A) - slice_bound c0 (cols A) \<or> cols V = 1"
    "item A' r c =
       (if slice_bound r0 (rows A) \<le> r \<and> r < slice_bound r1 (rows A) \<and>
           slice_bound c0 (cols A) \<le> c \<and> c < slice_bound c1 (cols A)
        then to_pixel (item V (bidx (rows V) (r - slice_bound r0 (rows A)))
                              (bidx (cols V) (c - slice_bound c0 (cols A))))
        else item A r c)"
  using assms by (auto simp: np_setslice_def Let_def split: if_splits)

lemma np_slice_simps:
  "rows (np_slice A r0 r1 c0 c1) = slice_bound r1 (rows A) - slice_bound r0 (rows A)"
  "cols (np_slice A r0 r1 c0 c1) = slice_bound c1 (cols A) - slice_bound c0 (cols A)"
  "item (np_slice A r0 r1 c0 c1) i j = item A (slice_bound r0 (rows A) + i) (slice_bound c0 (cols A) + j)"
  by (simp_all add: np_slice_def Let_def)

text \<open>What a successful blend stores, and where.\<close>

lemma blend_Inr:
  assumes ok: "blend img2 (x2, y2, w2, h2) warped m = Inr out"
    and shape: "rows warped = nat h2" "cols warped = nat w2" "rows m = nat h2" "cols m = nat w2"
    and nonneg: "0 \<le> x2" "0 \<le> y2" "0 \<le> w2" "0 \<le> h2"
  shows "rows out = rows img2" "cols out = cols img2"
    and "\<not> (y2 \<le> int r \<and> int r < y2 + h2 \<and> x2 \<le> int c \<and> int c < x2 + w2) \<Longrightarrow>
          item out r c = item img2 r c"
    and "r < rows img2 \<Longrightarrow> c < cols img2 \<Longrightarrow>
         y2 \<le> int r \<Longrightarrow> int r < y2 + h2 \<Longrightarrow> x2 \<le> int c \<Longrightarrow> int c < x2 + w2 \<Longrightarrow>
          item out r c =
            to_pixel (fadd (scale (item img2 r c) (1 - item m (r - nat y2) (c - nat x2)))
                           (scale (item warped (r - nat y2) (c - nat x2)) (item m (r - nat y2) (c - nat x2))))"
proof -
  let ?S = "np_slice img2 y2 (y2 + h2) x2 (x2 + w2)"
  let ?m' = "m\<lparr>item := \<lambda>r c. 1 - item m r c\<rparr>"
  let ?lr = "slice_bound y2 (rows img2)" and ?hr = "slice_bound (y2 + h2) (rows img2)"
  let ?lc = "slice_bound x2 (cols img2)" and ?hc = "slice_bound (x2 + w2) (cols img2)"
  from ok obtain P K B where P: "np_binop scale warped m = Inr P"
    and K: "np_binop scale ?S ?m' = Inr K"
    and B: "np_binop fadd K P = Inr B"
    and store: "np_setslice img2 y2 (y2 + h2) x2 (x2 + w2) B = Inr out"
    by (auto simp: blend_def split: sum.splits)
  note st = np_setslice_Inr [OF store]
  show "rows out = rows img2" "cols out = cols img2" by (rule st)+
  have lr: "?lr = min (nat y2) (rows img2)" and hr: "?hr = min (nat (y2 + h2)) (rows img2)"
    and lc: "?lc = min (nat x2) (cols img2)" and hc: "?hc = min (nat (x2 + w2)) (cols img2)"
    using nonneg by (simp_all add: slice_bound_nonneg)
  show "item out r c = item img2 r c"
    if "\<not> (y2 \<le> int r \<and> int r < y2 + h2 \<and> x2 \<le> int c \<and> int c < x2 + w2)"
  proof -
    from that nonneg have "\<not> (?lr \<le> r \<and> r < ?hr \<and> ?lc \<le> c \<and> c < ?hc)"
      unfolding lr hr lc hc by auto
    then show ?thesis unfolding st(5) by (rule if_not_P)
  qed
  show "item out r c =
            to_pixel (fadd (scale (item img2 r c) (1 - item m (r - nat y2) (c - nat x2)))
                           (scale (item warped (r - nat y2) (c - nat x2)) (item m (r - nat y2) (c - nat x2))))"
    if inside: "r < rows img2" "c < cols img2" "y2 \<le> int r" "int r < y2 + h2" "x2 \<le> int c" "int c < x2 + w2"
  proof -
    let ?i = "r - nat y2" and ?j = "c - nat x2"
    from inside nonneg have lr': "?lr = nat y2" and lc': "?lc = nat x2"
      and reg: "?lr \<le> r \<and> r < ?hr \<and> ?lc \<le> c \<and> c < ?hc"
      unfolding lr hr lc hc by auto
    have i: "?i < nat h2" and j: "?j < nat w2" using inside nonneg by linarith+
    have r: "nat y2 + ?i = r" and c: "nat x2 + ?j = c" using inside nonneg by linarith+
    have hs: "rows ?S = ?hr - ?lr" and ws: "cols ?S = ?hc - ?lc" by (simp_all add: np_slice_simps)
    have hs_le: "rows ?S \<le> nat h2" and ws_le: "cols ?S \<le> nat w2"
      unfolding hs ws lr hr lc hc using nonneg by auto
    have hs_pos: "0 < rows ?S" and ws_pos: "0 < cols ?S" unfolding hs ws using reg by auto
    note Kd = np_binop_Inr [OF K] and Bd = np_binop_Inr [OF B] and Pd = np_binop_Inr [OF P]
    have Prows: "rows P = nat h2" and Pcols: "cols P = nat w2"
      using Pd(1,2) shape by (simp_all add: bdim_same)
    have rowsx: "rows ?S = nat h2 \<and> rows K = nat h2 \<and> rows B = nat h2"
    proof (rule axis_exact)
      show "bdim (rows ?S) (nat h2) = Some (rows K)" using Kd(1) shape by simp
      show "bdim (rows K) (nat h2) = Some (rows B)" using Bd(1) Prows by simp
      show "rows B = rows ?S \<or> rows B = 1" using st(3) hs by simp
    qed (rule hs_le, rule hs_pos)
    have colsx: "cols ?S = nat w2 \<and> cols K = nat w2 \<and> cols B = nat w2"
    proof (rule axis_exact)
      show "bdim (cols ?S) (nat w2) = Some (cols K)" using Kd(2) shape by simp
      show "bdim (cols K) (nat w2) = Some (cols B)" using Bd(2) Pcols by simp
      show "cols B = cols ?S \<or> cols B = 1" using st(4) ws by simp
    qed (rule ws_le, rule ws_pos)
    have bi: "bidx (nat h2) ?i = ?i" and bj: "bidx (nat w2) ?j = ?j"
      using i j by (simp_all add: bidx_less)
    have "item out r c = to_pixel (item B (bidx (rows B) (r - ?lr)) (bidx (cols B) (c - ?lc)))"
      using reg by (simp add: st(5))
    also have "\<dots> = to_pixel (item B ?i ?j)"
      using rowsx colsx by (simp only: lr' lc' bi bj)
    also have "item B ?i ?j = fadd (item K ?i ?j) (item P ?i ?j)"
      using rowsx colsx Prows Pcols by (simp only: Bd(3) bi bj)
    also have "item K ?i ?j = scale (item ?S ?i ?j) (item ?m' ?i ?j)"
      using rowsx colsx shape by (simp add: Kd(3) bi bj)
    also have "item ?S ?i ?j = item img2 r c"
      by (simp only: np_slice_simps lr' lc' r c)
    also have "item ?m' ?i ?j = 1 - item m ?i ?j" by simp
    also have "item P ?i ?j = scale (item warped ?i ?j) (item m ?i ?j)"
      using shape by (simp add: Pd(3) bi bj)
    finally show ?thesis .
  qed
qed

lemma apply_affine_transform_shape:
  "apply_affine_transform cv src t1 t2 (w, h) = Inr warped \<Longrightarrow>
     rows warped = nat h \<and> cols warped = nat w"
  by (auto simp: apply_affine_transform_def split: sum.splits)

lemma warped_patch_shape:
  assumes "boundingRect cv tri2 = (x2, y2, w2, h2)" "warped_patch cv img1 tri1 tri2 = Inr warped"
  shows "rows warped = nat h2" "cols warped = nat w2"
proof -
  obtain x1 y1 w1 h1 where "boundingRect cv tri1 = (x1, y1, w1, h1)"
    by (cases "boundingRect cv tri1") auto
  with assms have "apply_affine_transform cv (np_slice img1 y1 (y1 + h1) x1 (x1 + w1))
      (local_tri (x1, y1, w1, h1) tri1) (local_tri (x2, y2, w2, h2) tri2) (w2, h2) = Inr warped"
    by (simp add: warped_patch_def)
  from apply_affine_transform_shape [OF this]
  show "rows warped = nat h2" "cols warped = nat w2" by simp_all
qed

lemma dest_mask_simps:
  assumes "boundingRect cv tri2 = (x2, y2, w2, h2)"
  shows "rows (dest_mask cv tri2) = nat h2" "cols (dest_mask cv tri2) = nat w2"
    "item (dest_mask cv tri2) i j =
       (if fillConvexPoly cv (local_tri_int (x2, y2, w2, h2) tri2) i j then 1 else 0)"
  using assms by (simp_all add: dest_mask_def fill_mask_def)

lemma warp_triangles_InrD:
  assumes "warp_triangles cv img1 img2 tri1 tri2 = Inr out" "boundingRect cv tri2 = (x2, y2, w2, h2)"
  shows "0 \<le> w2" "0 \<le> h2"
    "\<exists>warped. warped_patch cv img1 tri1 tri2 = Inr warped \<and>
       blend img2 (x2, y2, w2, h2) warped (dest_mask cv tri2) = Inr out"
  using assms by (auto simp: warp_triangles_def split: if_splits sum.splits)

lemma to_uint8_byte: "to_uint8 (of_nat (unat b)) = b"
proof -
  have "(0::rat) \<le> of_nat (unat b)" by (rule of_nat_0_le_iff)
  then have "py_int (of_nat (unat b)) = int (unat b)"
    unfolding py_int_def by (simp only: if_True floor_of_nat)
  moreover have "word_of_int (int (unat b)) = b" by simp
  ultimately show ?thesis unfolding to_uint8_def by (simp only:)
qed

lemma to_pixel_keep: "to_pixel (fadd (scale p 1) (scale q 0)) = p"
  by (cases p; cases q)
     (simp only: to_pixel_def fadd_def scale_def prod.case mult_1_right mult_zero_right add_0_right
        to_uint8_byte)

lemma to_pixel_take: "to_pixel (fadd (scale p 0) (scale q 1)) = q"
  by (cases p; cases q)
     (simp only: to_pixel_def fadd_def scale_def prod.case mult_1_right mult_zero_right add_0_left
        to_uint8_byte)

text \<open>
  Claim C6, as amended. For every call of \<^verbatim>\<open>warp_triangles\<close> that returns and whose destination
  bounding rectangle \<open>(x2, y2, w2, h2)\<close> has an origin that is not negative: the destination
  image keeps its shape; every pixel outside the rectangle is unchanged; every pixel of the
  image inside the rectangle becomes \<open>dest * (1 - mask) + warped_patch * mask\<close>, stored as
  bytes, which is the old pixel where the mask is 0 (outside the triangle) and the pixel of
  the warped patch where the mask is 1.
\<close>

theorem warp_triangles_locality:
  assumes "boundingRect cv tri2 = (x2, y2, w2, h2)" and "0 \<le> x2" and "0 \<le> y2"
    and "warp_triangles cv img1 img2 tri1 tri2 = Inr img2'"
  shows "rows img2' = rows img2 \<and> cols img2' = cols img2 \<and>
    (\<forall>r c. \<not> (y2 \<le> int r \<and> int r < y2 + h2 \<and> x2 \<le> int c \<and> int c < x2 + w2) \<longrightarrow>
       item img2' r c = item img2 r c) \<and>
    (\<exists>warped. warped_patch cv img1 tri1 tri2 = Inr warped \<and>
       (\<forall>r c. r < rows img2 \<and> c < cols img2 \<and>
              y2 \<le> int r \<and> int r < y2 + h2 \<and> x2 \<le> int c \<and> int c < x2 + w2 \<longrightarrow>
          item img2' r c =
            to_pixel (fadd (scale (item img2 r c) (1 - item (dest_mask cv tri2) (r - nat y2) (c - nat x2)))
                           (scale (item warped (r - nat y2) (c - nat x2))
                                  (item (dest_mask cv tri2) (r - nat y2) (c - nat x2)))) \<and>
          (item (dest_mask cv tri2) (r - nat y2) (c - nat x2) = 0 \<longrightarrow> item img2' r c = item img2 r c) \<and>
          (item (dest_mask cv tri2) (r - nat y2) (c - nat x2) = 1 \<longrightarrow>
             item img2' r c = item warped (r - nat y2) (c - nat x2))))"
proof -
  note D = warp_triangles_InrD [OF assms(4) assms(1)]
  from D(3) obtain warped where w: "warped_patch cv img1 tri1 tri2 = Inr warped"
    and b: "blend img2 (x2, y2, w2, h2) warped (dest_mask cv tri2) = Inr img2'" by blast
  note ws = warped_patch_shape [OF assms(1) w]
  note ms = dest_mask_simps(1,2) [OF assms(1)]
  note B = blend_Inr [OF b ws ms assms(2,3) D(1,2)]
  have inside: "item img2' r c =
            to_pixel (fadd (scale (item img2 r c) (1 - item (dest_mask cv tri2) (r - nat y2) (c - nat x2)))
                           (scale (item warped (r - nat y2) (c - nat x2))
                                  (item (dest_mask cv tri2) (r - nat y2) (c - nat x2)))) \<and>
          (item (dest_mask cv tri2) (r - nat y2) (c - nat x2) = 0 \<longrightarrow> item img2' r c = item img2 r c) \<and>
          (item (dest_mask cv tri2) (r - nat y2) (c - nat x2) = 1 \<longrightarrow>
             item img2' r c = item warped (r - nat y2) (c - nat x2))"
    if "r < rows img2 \<and> c < cols img2 \<and>
        y2 \<le> int r \<and> int r < y2 + h2 \<and> x2 \<le> int c \<and> int c < x2 + w2" for r c
  proof -
    from that have f: "item img2' r c =
            to_pixel (fadd (scale (item img2 r c) (1 - item (dest_mask cv tri2) (r - nat y2) (c - nat x2)))
                           (scale (item warped (r - nat y2) (c - nat x2))
                                  (item (dest_mask cv tri2) (r - nat y2) (c - nat x2))))"
      by (intro B(4)) simp_all
    have "item img2' r c = item img2 r c" if "item (dest_mask cv tri2) (r - nat y2) (c - nat x2) = 0"
      unfolding f that by (simp add: to_pixel_keep)
    moreover have "item img2' r c = item warped (r - nat y2) (c - nat x2)"
      if "item (dest_mask cv tri2) (r - nat y2) (c - nat x2) = 1"
      unfolding f that by (simp add: to_pixel_take)
    ultimately show ?thesis using f by blast
  qed
  from B(1) B(2) B(3) w inside show ?thesis by blast
qed


lemmas example_defs = lib_fill_def stub_cv_def bounding_box_def plain_def no_face_def
  warp_triangles_def warped_patch_def dest_mask_def fill_mask_def blend_def local_tri_def
  local_tri_int_def apply_affine_transform_def np_binop_def np_setslice_def np_slice_def
  slice_bound_def bdim_def bidx_def

lemma ex_bound: "boundingRect lib_fill [(1, 1), (2, 1), (1, 2)] = (1, 1, 2, 2)"
  by (simp add: lib_fill_def stub_cv_def bounding_box_def)

lemma ex_returns:
  "\<exists>out. warp_triangles lib_fill (plain 4 4 (7, 7, 7)) (plain 3 6 (1, 1, 1))
           [(0, 0), (2, 0), (0, 2)] [(1, 1), (2, 1), (1, 2)] = Inr out"
  by (simp add: example_defs)

text \<open>The theorem at a triangle with the bounding rectangle \<open>(1, 1, 2, 2)\<close> in a 3 by 6 image.\<close>

theorem warp_triangles_locality_witness:
  "pixel_at (warp_triangles lib_fill (plain 4 4 (7, 7, 7)) (plain 3 6 (1, 1, 1))
              [(0, 0), (2, 0), (0, 2)] [(1, 1), (2, 1), (1, 2)]) 0 0 = Inr (1, 1, 1)"
proof -
  from ex_returns obtain out where out:
    "warp_triangles lib_fill (plain 4 4 (7, 7, 7)) (plain 3 6 (1, 1, 1))
       [(0, 0), (2, 0), (0, 2)] [(1, 1), (2, 1), (1, 2)] = Inr out" ..
  have "\<forall>r c. \<not> (1 \<le> int r \<and> int r < 1 + 2 \<and> 1 \<le> int c \<and> int c < 1 + 2) \<longrightarrow>
       item out r c = item (plain 3 6 (1, 1, 1)) r c"
    using warp_triangles_locality [OF ex_bound _ _ out] by simp
  then have "item out 0 0 = item (plain 3 6 (1, 1, 1)) 0 0" by simp
  then have "item out 0 0 = (1, 1, 1)" by (simp add: plain_def)
  then show ?thesis unfolding out pixel_at_def by simp
qed

text \<open>
  A destination triangle left of the image, with the bounding rectangle \<open>(-3, 0, 2, 2)\<close>: the
  slice \<^verbatim>\<open>img2[0:2, -3:-1]\<close> counts its columns from the right edge and selects columns 3 and 4
  of the 6, the shapes agree, and the pixel at row 0, column 3, which is outside the
  rectangle, changes from \<open>(1, 1, 1)\<close> to \<open>(9, 9, 9)\<close>.
\<close>

theorem warp_triangles_writes_outside_rectangle:
  "boundingRect lib_fill [(-3, 0), (-2, 0), (-3, 1)] = (-3, 0, 2, 2) \<and>
   item (plain 3 6 (1, 1, 1)) 0 3 = (1, 1, 1) \<and>
   pixel_at (warp_triangles lib_fill (plain 4 4 (7, 7, 7)) (plain 3 6 (1, 1, 1))
              [(0, 0), (2, 0), (0, 2)] [(-3, 0), (-2, 0), (-3, 1)]) 0 3 = Inr (9, 9, 9)"
  by (simp add: example_defs pixel_at_def scale_def fadd_def to_pixel_def to_uint8_def py_int_def)

section \<open>Properties of the video loop\<close>

lemma process_frames_Cons:
  "process_frames cv si sl tris (f # cap) written =
     (case corrected_frame cv si sl tris f of
        Inl e \<Rightarrow> Inl e
      | Inr None \<Rightarrow> process_frames cv si sl tris cap written
      | Inr (Some g) \<Rightarrow> process_frames cv si sl tris cap (written @ [g]))"
  by (simp add: corrected_frame_def split: option.splits sum.splits)

declare process_frames.simps(2) [simp del]

lemma process_frames_append:
  "process_frames cv si sl tris (pre @ post) written =
     (case process_frames cv si sl tris pre written of
        Inl e \<Rightarrow> Inl e
      | Inr written' \<Rightarrow> process_frames cv si sl tris post written')"
proof (induction pre arbitrary: written)
  case Nil
  show ?case by simp
next
  case (Cons f pre)
  show ?case
    by (simp only: append_Cons process_frames_Cons Cons.IH split: sum.splits option.splits) simp
qed

text \<open>The frames a completed loop has written.\<close>

lemma process_frames_Inr:
  "process_frames cv si sl tris cap written = Inr out \<Longrightarrow>
     out = written @ List.map_filter (\<lambda>f. case corrected_frame cv si sl tris f of Inr r \<Rightarrow> r | Inl e \<Rightarrow> None) cap \<and>
     (\<forall>f\<in>set cap. \<exists>r. corrected_frame cv si sl tris f = Inr r)"
proof (induction cap arbitrary: written)
  case Nil
  then show ?case by (simp add: List.map_filter_simps)
next
  case (Cons f cap)
  show ?case
  proof (cases "corrected_frame cv si sl tris f")
    case (Inl e)
    with Cons.prems show ?thesis by (simp add: process_frames_Cons)
  next
    case (Inr r)
    show ?thesis
    proof (cases r)
      case None
      with Inr Cons.prems have "process_frames cv si sl tris cap written = Inr out"
        by (simp add: process_frames_Cons)
      from Cons.IH [OF this] Inr None show ?thesis by (simp add: List.map_filter_simps)
    next
      case (Some g)
      with Inr Cons.prems have "process_frames cv si sl tris cap (written @ [g]) = Inr out"
        by (simp add: process_frames_Cons)
      from Cons.IH [OF this] Inr Some show ?thesis by (simp add: List.map_filter_simps)
    qed
  qed
qed

lemma corrected_frame_None_iff:
  "corrected_frame cv si sl tris f = Inr None \<longleftrightarrow> get_landmarks cv f = None"
  by (simp add: corrected_frame_def split: option.splits sum.splits)

lemma written_count:
  assumes "\<forall>f\<in>set cap. \<exists>r. corrected_frame cv si sl tris f = Inr r"
  shows "length (List.map_filter (\<lambda>f. case corrected_frame cv si sl tris f of Inr r \<Rightarrow> r | Inl e \<Rightarrow> None) cap)
         = length (filter (\<lambda>f. get_landmarks cv f \<noteq> None) cap)"
  using assms
proof (induction cap)
  case Nil
  show ?case by (simp add: List.map_filter_simps)
next
  case (Cons f cap)
  from Cons.prems obtain r where r: "corrected_frame cv si sl tris f = Inr r" by auto
  from Cons.prems have "\<forall>f\<in>set cap. \<exists>r. corrected_frame cv si sl tris f = Inr r" by simp
  note IH = Cons.IH [OF this]
  show ?case
  proof (cases r)
    case None
    with r have "get_landmarks cv f = None" by (simp add: corrected_frame_None_iff)
    with r None IH show ?thesis by (simp add: List.map_filter_simps)
  next
    case (Some g)
    with r have "get_landmarks cv f \<noteq> None"
      using corrected_frame_None_iff [of cv si sl tris f] by simp
    with r Some IH show ?thesis by (simp add: List.map_filter_simps)
  qed
qed

lemmas run_defs = process_video_def get_landmarks_def get_delaunay_triangles_def stub_cv_def
  detect_nonblack_def plain_def one_pixel_def process_frames.simps(2)

text \<open>
  Claim C1, as amended. In the per-frame loop a frame in which the detector finds no face
  is omitted from the output and the loop goes on with the next frame: the run is the same
  as without that frame. When the loop ends, the frames written are those of the frames it
  read that have landmarks, in their order. In particular, when the loop reads five frames
  of which only the third yields no landmarks, exactly the four others are written, in order.
\<close>

theorem frame_drop_policy:
  "(get_landmarks cv frame = None \<longrightarrow>
      process_frames cv si sl tris (pre @ frame # post) written =
      process_frames cv si sl tris (pre @ post) written) \<and>
   (\<forall>out. process_frames cv si sl tris cap written = Inr out \<longrightarrow>
      out = written @ List.map_filter
              (\<lambda>f. case corrected_frame cv si sl tris f of Inr r \<Rightarrow> r | Inl e \<Rightarrow> None) cap \<and>
      length out = length written + length (filter (\<lambda>f. get_landmarks cv f \<noteq> None) cap)) \<and>
   (get_landmarks cv f3 = None \<and>
    corrected_frame cv si sl tris f1 = Inr (Some o1) \<and> corrected_frame cv si sl tris f2 = Inr (Some o2) \<and>
    corrected_frame cv si sl tris f4 = Inr (Some o4) \<and> corrected_frame cv si sl tris f5 = Inr (Some o5) \<longrightarrow>
      process_frames cv si sl tris [f1, f2, f3, f4, f5] [] = Inr [o1, o2, o4, o5])"
proof (intro conjI allI impI)
  assume none: "get_landmarks cv frame = None"
  then have "corrected_frame cv si sl tris frame = Inr None" by (simp add: corrected_frame_None_iff)
  then have "process_frames cv si sl tris (frame # post) w = process_frames cv si sl tris post w" for w
    by (simp add: process_frames_Cons)
  then show "process_frames cv si sl tris (pre @ frame # post) written =
      process_frames cv si sl tris (pre @ post) written"
    by (simp add: process_frames_append [of cv si sl tris pre] split: sum.splits)
next
  fix out assume run: "process_frames cv si sl tris cap written = Inr out"
  note R = process_frames_Inr [OF run]
  from R show "out = written @ List.map_filter
              (\<lambda>f. case corrected_frame cv si sl tris f of Inr r \<Rightarrow> r | Inl e \<Rightarrow> None) cap" by blast
  from R have "\<forall>f\<in>set cap. \<exists>r. corrected_frame cv si sl tris f = Inr r" by blast
  from written_count [OF this] R
  show "length out = length written + length (filter (\<lambda>f. get_landmarks cv f \<noteq> None) cap)" by simp
next
  assume h: "get_landmarks cv f3 = None \<and>
    corrected_frame cv si sl tris f1 = Inr (Some o1) \<and> corrected_frame cv si sl tris f2 = Inr (Some o2) \<and>
    corrected_frame cv si sl tris f4 = Inr (Some o4) \<and> corrected_frame cv si sl tris f5 = Inr (Some o5)"
  then have "corrected_frame cv si sl tris f3 = Inr None" by (simp add: corrected_frame_None_iff)
  with h show "process_frames cv si sl tris [f1, f2, f3, f4, f5] [] = Inr [o1, o2, o4, o5]"
    by (simp add: process_frames_Cons)
qed

lemma lib_plain_frame:
  "p \<noteq> (0, 0, 0) \<Longrightarrow>
   corrected_frame lib_plain si [] [] (one_pixel p) = Inr (Some (match_histograms (one_pixel p) (one_pixel p)))"
  by (simp add: corrected_frame_def get_landmarks_def lib_plain_def stub_cv_def detect_nonblack_def
      one_pixel_def)

lemma lib_plain_black: "get_landmarks lib_plain (one_pixel (0, 0, 0)) = None"
  by (simp add: get_landmarks_def lib_plain_def stub_cv_def detect_nonblack_def one_pixel_def)

text \<open>The theorem at five one-pixel frames read by the loop, the third one black.\<close>

theorem frame_drop_policy_witness:
  "process_frames lib_plain (plain 2 2 (7, 7, 7)) [] []
     [one_pixel (1, 1, 1), one_pixel (2, 2, 2), one_pixel (0, 0, 0), one_pixel (4, 4, 4), one_pixel (5, 5, 5)] []
   = Inr [match_histograms (one_pixel (1, 1, 1)) (one_pixel (1, 1, 1)),
          match_histograms (one_pixel (2, 2, 2)) (one_pixel (2, 2, 2)),
          match_histograms (one_pixel (4, 4, 4)) (one_pixel (4, 4, 4)),
          match_histograms (one_pixel (5, 5, 5)) (one_pixel (5, 5, 5))]"
proof -
  have "get_landmarks lib_plain (one_pixel (0, 0, 0)) = None \<and>
    corrected_frame lib_plain (plain 2 2 (7, 7, 7)) [] [] (one_pixel (1, 1, 1))
      = Inr (Some (match_histograms (one_pixel (1, 1, 1)) (one_pixel (1, 1, 1)))) \<and>
    corrected_frame lib_plain (plain 2 2 (7, 7, 7)) [] [] (one_pixel (2, 2, 2))
      = Inr (Some (match_histograms (one_pixel (2, 2, 2)) (one_pixel (2, 2, 2)))) \<and>
    corrected_frame lib_plain (plain 2 2 (7, 7, 7)) [] [] (one_pixel (4, 4, 4))
      = Inr (Some (match_histograms (one_pixel (4, 4, 4)) (one_pixel (4, 4, 4)))) \<and>
    corrected_frame lib_plain (plain 2 2 (7, 7, 7)) [] [] (one_pixel (5, 5, 5))
      = Inr (Some (match_histograms (one_pixel (5, 5, 5)) (one_pixel (5, 5, 5))))"
    by (intro conjI lib_plain_black lib_plain_frame) simp_all
  with frame_drop_policy [of lib_plain "one_pixel (0, 0, 0)" "plain 2 2 (7, 7, 7)" "[]" "[]"]
  show ?thesis by blast
qed

text \<open>
  A video of five frames in which only frame 3 yields no landmarks: the run writes 3 frames,
  not 4 (the first frame is read before the loop and is never written).
\<close>

theorem five_frames_three_written:
  "get_landmarks lib_plain (one_pixel (1, 1, 1)) = Some [] \<and>
   get_landmarks lib_plain (one_pixel (2, 2, 2)) = Some [] \<and>
   get_landmarks lib_plain (one_pixel (0, 0, 0)) = None \<and>
   get_landmarks lib_plain (one_pixel (4, 4, 4)) = Some [] \<and>
   get_landmarks lib_plain (one_pixel (5, 5, 5)) = Some [] \<and>
   frames_written (process_video lib_plain (Some (plain 2 2 (7, 7, 7)))
     (Some [one_pixel (1, 1, 1), one_pixel (2, 2, 2), one_pixel (0, 0, 0), one_pixel (4, 4, 4),
            one_pixel (5, 5, 5)])) = Inr (Some 3)"
  by (simp add: frames_written_def lib_plain_def run_defs)

lemma process_video_frames:
  "process_video cv imread (Some (first_frame # cap)) =
     (case imread of
        None \<Rightarrow> Inl CvError
      | Some static_img \<Rightarrow>
          (case get_landmarks cv static_img of
             None \<Rightarrow> Inr NoStaticLandmarks
           | Some static_landmarks \<Rightarrow>
               (case get_delaunay_triangles cv (0, 0, int (cols static_img), int (rows static_img))
                       static_landmarks of
                  Inl e \<Rightarrow> Inl e
                | Inr static_delaunay_tri \<Rightarrow>
                    (case process_frames cv static_img static_landmarks static_delaunay_tri cap [] of
                       Inl e \<Rightarrow> Inl e
                     | Inr written \<Rightarrow> Inr (Complete (cols first_frame, rows first_frame) written)))))"
  by (simp add: process_video_def split: option.splits sum.splits)

lemma process_video_CompleteD:
  assumes "process_video cv imread (Some (first_frame # cap)) = Inr (Complete sz written)"
  shows "sz = (cols first_frame, rows first_frame)"
    and "\<exists>static_img static_landmarks tris.
           imread = Some static_img \<and> get_landmarks cv static_img = Some static_landmarks \<and>
           get_delaunay_triangles cv (0, 0, int (cols static_img), int (rows static_img)) static_landmarks
             = Inr tris \<and>
           process_frames cv static_img static_landmarks tris cap [] = Inr written"
  using assms by (auto simp: process_video_frames split: option.splits sum.splits)

lemma length_map_filter_le: "length (List.map_filter f xs) \<le> length xs"
  by (induction xs) (auto simp: List.map_filter_simps split: option.splits)

text \<open>
  Claim C2. For a video with at least one readable frame, the first frame only gives the
  writer its size \<open>(width, height)\<close>: a run that completes has that size, its written frames
  are what the per-frame loop produces from the frames after the first, starting with an
  empty writer, and they are the same for any other first frame; two first frames of the
  same shape give the same run.
\<close>

theorem first_frame_only_sizes_writer:
  "(rows first_frame' = rows first_frame \<and> cols first_frame' = cols first_frame \<longrightarrow>
      process_video cv imread (Some (first_frame' # cap)) = process_video cv imread (Some (first_frame # cap))) \<and>
   (\<forall>sz written. process_video cv imread (Some (first_frame # cap)) = Inr (Complete sz written) \<longrightarrow>
      sz = (cols first_frame, rows first_frame) \<and>
      (\<exists>static_img static_landmarks tris.
          imread = Some static_img \<and> get_landmarks cv static_img = Some static_landmarks \<and>
          get_delaunay_triangles cv (0, 0, int (cols static_img), int (rows static_img)) static_landmarks
            = Inr tris \<and>
          process_frames cv static_img static_landmarks tris cap [] = Inr written) \<and>
      length written \<le> length cap \<and>
      process_video cv imread (Some (first_frame' # cap))
        = Inr (Complete (cols first_frame', rows first_frame') written))"
proof (intro conjI allI impI)
  assume "rows first_frame' = rows first_frame \<and> cols first_frame' = cols first_frame"
  then have "(cols first_frame', rows first_frame') = (cols first_frame, rows first_frame)" by simp
  then show "process_video cv imread (Some (first_frame' # cap)) = process_video cv imread (Some (first_frame # cap))"
    by (simp only: process_video_frames)
next
  fix sz written
  assume run: "process_video cv imread (Some (first_frame # cap)) = Inr (Complete sz written)"
  note D = process_video_CompleteD [OF run]
  show "sz = (cols first_frame, rows first_frame)" by (rule D(1))
  show "\<exists>static_img static_landmarks tris.
          imread = Some static_img \<and> get_landmarks cv static_img = Some static_landmarks \<and>
          get_delaunay_triangles cv (0, 0, int (cols static_img), int (rows static_img)) static_landmarks
            = Inr tris \<and>
          process_frames cv static_img static_landmarks tris cap [] = Inr written" by (rule D(2))
  from D(2) obtain si sl tris where si: "imread = Some si" "get_landmarks cv si = Some sl"
      "get_delaunay_triangles cv (0, 0, int (cols si), int (rows si)) sl = Inr tris"
      "process_frames cv si sl tris cap [] = Inr written" by blast
  from process_frames_Inr [OF si(4)] show "length written \<le> length cap"
    by (simp add: length_map_filter_le)
  from si show "process_video cv imread (Some (first_frame' # cap))
        = Inr (Complete (cols first_frame', rows first_frame') written)"
    by (simp add: process_video_frames)
qed

text \<open>The theorem at a video of two frames, with a first frame with and without a face.\<close>

theorem first_frame_only_sizes_writer_witness:
  "process_video lib_plain (Some (plain 2 2 (7, 7, 7))) (Some [one_pixel (1, 1, 1), one_pixel (5, 5, 5)])
     = Inr (Complete (1, 1) [match_histograms (one_pixel (5, 5, 5)) (one_pixel (5, 5, 5))]) \<and>
   process_video lib_plain (Some (plain 2 2 (7, 7, 7))) (Some [one_pixel (0, 0, 0), one_pixel (5, 5, 5)])
     = Inr (Complete (1, 1) [match_histograms (one_pixel (5, 5, 5)) (one_pixel (5, 5, 5))])"
proof -
  have run: "process_video lib_plain (Some (plain 2 2 (7, 7, 7))) (Some [one_pixel (1, 1, 1), one_pixel (5, 5, 5)])
     = Inr (Complete (1, 1) [match_histograms (one_pixel (5, 5, 5)) (one_pixel (5, 5, 5))])"
    by (simp add: lib_plain_def run_defs)
  have shape: "cols (one_pixel (0, 0, 0)) = 1" "rows (one_pixel (0, 0, 0)) = 1"
    by (simp_all add: one_pixel_def)
  from first_frame_only_sizes_writer
         [of "one_pixel (0, 0, 0)" "one_pixel (1, 1, 1)" lib_plain "Some (plain 2 2 (7, 7, 7))"
             "[one_pixel (5, 5, 5)]"] run
  have "process_video lib_plain (Some (plain 2 2 (7, 7, 7))) (Some [one_pixel (0, 0, 0), one_pixel (5, 5, 5)])
     = Inr (Complete (cols (one_pixel (0, 0, 0)), rows (one_pixel (0, 0, 0)))
              [match_histograms (one_pixel (5, 5, 5)) (one_pixel (5, 5, 5))])"
    by blast
  with run show ?thesis by (simp only: shape)
qed

lemma warp_frame_append:
  "warp_frame cv si sl fl (pre @ post) w =
     (case warp_frame cv si sl fl pre w of Inl e \<Rightarrow> Inl e | Inr w' \<Rightarrow> warp_frame cv si sl fl post w')"
  by (induction pre arbitrary: w) (simp_all split: sum.splits)

lemma apply_affine_transform_Inl:
  "apply_affine_transform cv src src_tri dst_tri sz = Inl e \<longleftrightarrow>
     getAffineTransform cv src_tri dst_tri = Inl e \<or>
     (\<exists>warp_mat. getAffineTransform cv src_tri dst_tri = Inr warp_mat \<and>
                 warpAffine cv src warp_mat sz = Inl e)"
  by (auto simp: apply_affine_transform_def split: sum.splits)

lemma warp_triangles_patch_error:
  assumes "3 \<le> length tri1" "3 \<le> length tri2" "boundingRect cv tri2 = (x2, y2, w2, h2)"
    "0 \<le> w2" "0 \<le> h2" "warped_patch cv img1 tri1 tri2 = Inl e"
  shows "warp_triangles cv img1 img2 tri1 tri2 = Inl e"
  using assms by (simp add: warp_triangles_def)

text \<open>
  Claim C10, as amended. \<^verbatim>\<open>apply_affine_transform\<close> has no test for a degenerate triangle: it
  fails exactly when the library's affine solver or resampler fails, with that error. The
  caller catches nothing: an error of the warp of one triangle leaves \<^verbatim>\<open>warp_triangles\<close>, ends
  the loop over the triangles before the remaining ones, ends the loop over the frames
  before the remaining ones, and ends the run with that error.
\<close>

theorem degenerate_triangle_handling:
  "(apply_affine_transform cv src src_tri dst_tri sz = Inl e \<longleftrightarrow>
      getAffineTransform cv src_tri dst_tri = Inl e \<or>
      (\<exists>warp_mat. getAffineTransform cv src_tri dst_tri = Inr warp_mat \<and>
                  warpAffine cv src warp_mat sz = Inl e)) \<and>
   (3 \<le> length tri1 \<and> 3 \<le> length tri2 \<and> boundingRect cv tri2 = (x2, y2, w2, h2) \<and>
    0 \<le> w2 \<and> 0 \<le> h2 \<and> warped_patch cv img1 tri1 tri2 = Inl e \<longrightarrow>
      warp_triangles cv img1 img2 tri1 tri2 = Inl e) \<and>
   (warp_frame cv si sl fl done w = Inr w' \<and> triangle_of sl t = Inr tri1 \<and>
    triangle_of fl t = Inr tri2 \<and> warp_triangles cv si w' tri1 tri2 = Inl e \<longrightarrow>
      warp_frame cv si sl fl (done @ t # rest) w = Inl e) \<and>
   (process_frames cv si sl tris before written = Inr written' \<and>
    get_landmarks cv frame = Some fl \<and> warp_frame cv si sl fl tris frame = Inl e \<longrightarrow>
      process_frames cv si sl tris (before @ frame # after) written = Inl e) \<and>
   (imread = Some si \<and> get_landmarks cv si = Some sl \<and>
    get_delaunay_triangles cv (0, 0, int (cols si), int (rows si)) sl = Inr tris \<and>
    process_frames cv si sl tris cap [] = Inl e \<longrightarrow>
      process_video cv imread (Some (first_frame # cap)) = Inl e)"
proof (intro conjI impI)
  show "apply_affine_transform cv src src_tri dst_tri sz = Inl e \<longleftrightarrow>
      getAffineTransform cv src_tri dst_tri = Inl e \<or>
      (\<exists>warp_mat. getAffineTransform cv src_tri dst_tri = Inr warp_mat \<and>
                  warpAffine cv src warp_mat sz = Inl e)"
    by (rule apply_affine_transform_Inl)
next
  assume "3 \<le> length tri1 \<and> 3 \<le> length tri2 \<and> boundingRect cv tri2 = (x2, y2, w2, h2) \<and>
    0 \<le> w2 \<and> 0 \<le> h2 \<and> warped_patch cv img1 tri1 tri2 = Inl e"
  then show "warp_triangles cv img1 img2 tri1 tri2 = Inl e"
    by (intro warp_triangles_patch_error [of tri1 tri2 cv x2 y2 w2 h2]) simp_all
next
  assume "warp_frame cv si sl fl done w = Inr w' \<and> triangle_of sl t = Inr tri1 \<and>
    triangle_of fl t = Inr tri2 \<and> warp_triangles cv si w' tri1 tri2 = Inl e"
  then show "warp_frame cv si sl fl (done @ t # rest) w = Inl e"
    by (simp add: warp_frame_append)
next
  assume h: "process_frames cv si sl tris before written = Inr written' \<and>
    get_landmarks cv frame = Some fl \<and> warp_frame cv si sl fl tris frame = Inl e"
  then have "corrected_frame cv si sl tris frame = Inl e" by (simp add: corrected_frame_def)
  with h show "process_frames cv si sl tris (before @ frame # after) written = Inl e"
    by (simp add: process_frames_append [of cv si sl tris before] process_frames_Cons)
next
  assume "imread = Some si \<and> get_landmarks cv si = Some sl \<and>
    get_delaunay_triangles cv (0, 0, int (cols si), int (rows si)) sl = Inr tris \<and>
    process_frames cv si sl tris cap [] = Inl e"
  then show "process_video cv imread (Some (first_frame # cap)) = Inl e"
    by (simp add: process_video_frames)
qed

lemma floor_half: "\<lfloor>1 / 2 :: rat\<rfloor> = 0"
  by (simp add: floor_eq_iff)

lemma strict_landmarks:
  "get_landmarks lib_strict (one_pixel (2, 2, 2)) = Some [(0, 0), (0, 0), (0, 0)]"
  by (simp add: get_landmarks_def lib_strict_def stub_cv_def detect_nonblack_def one_pixel_def
      py_int_def floor_half)

lemma strict_warp_fails:
  "warp_frame lib_strict (plain 4 4 (7, 7, 7)) [(0, 0), (2, 0), (0, 2)] [(0, 0), (0, 0), (0, 0)]
     [(0, 1, 2)] (one_pixel (2, 2, 2)) = Inl CvError"
  by (simp add: triangle_of_def list_get_def example_defs lib_strict_def)

text \<open>The theorem at a frame whose three landmarks coincide, with the strict library.\<close>

theorem degenerate_triangle_handling_witness:
  "process_frames lib_strict (plain 4 4 (7, 7, 7)) [(0, 0), (2, 0), (0, 2)] [(0, 1, 2)]
     [one_pixel (2, 2, 2), one_pixel (3, 3, 3)] [] = Inl CvError"
proof -
  have "process_frames lib_strict (plain 4 4 (7, 7, 7)) [(0, 0), (2, 0), (0, 2)] [(0, 1, 2)] [] [] = Inr []"
    by simp
  with strict_landmarks strict_warp_fails
    degenerate_triangle_handling
      [where cv = lib_strict and si = "plain 4 4 (7, 7, 7)" and sl = "[(0, 0), (2, 0), (0, 2)]"
         and tris = "[(0, 1, 2)]" and before = "[]" and written = "[]" and written' = "[]"
         and frame = "one_pixel (2, 2, 2)" and fl = "[(0, 0), (0, 0), (0, 0)]" and e = CvError
         and after = "[one_pixel (3, 3, 3)]"]
  show ?thesis by simp
qed

text \<open>
  A destination triangle of area zero. With a solver that returns on it, the affine warp
  returns a patch and raises nothing. With a solver that raises on it, the run over a video
  of three frames ends with the error at the second frame: the triangle is not skipped, and
  the third frame is never processed.
\<close>

theorem degenerate_triangle_not_skipped:
  "area2 [(0, 0), (0, 0), (0, 0)] = 0 \<and>
   pixel_at (apply_affine_transform lib_lenient (one_pixel (7, 7, 7))
               [(0, 0), (2, 0), (0, 2)] [(0, 0), (0, 0), (0, 0)] (1, 1)) 0 0 = Inr (9, 9, 9) \<and>
   get_landmarks lib_strict (one_pixel (2, 2, 2)) = Some [(0, 0), (0, 0), (0, 0)] \<and>
   frames_written (process_video lib_strict (Some (plain 4 4 (7, 7, 7)))
     (Some [one_pixel (1, 1, 1), one_pixel (2, 2, 2), one_pixel (3, 3, 3)])) = Inl CvError"
proof (intro conjI)
  show "area2 [(0, 0), (0, 0), (0, 0)] = 0" by simp
  show "pixel_at (apply_affine_transform lib_lenient (one_pixel (7, 7, 7))
               [(0, 0), (2, 0), (0, 2)] [(0, 0), (0, 0), (0, 0)] (1, 1)) 0 0 = Inr (9, 9, 9)"
    by (simp add: pixel_at_def apply_affine_transform_def lib_lenient_def stub_cv_def)
  show "get_landmarks lib_strict (one_pixel (2, 2, 2)) = Some [(0, 0), (0, 0), (0, 0)]"
    by (rule strict_landmarks)
  have lm: "get_landmarks lib_strict (plain 4 4 (7, 7, 7)) = Some [(0, 0), (2, 0), (0, 2)]"
    by (simp add: get_landmarks_def lib_strict_def stub_cv_def detect_nonblack_def plain_def py_int_def)
  have tris: "get_delaunay_triangles lib_strict (0, 0, int (cols (plain 4 4 (7, 7, 7))),
                 int (rows (plain 4 4 (7, 7, 7)))) [(0, 0), (2, 0), (0, 2)] = Inr [(0, 1, 2)]"
    by (simp add: get_delaunay_triangles_def lib_strict_def stub_cv_def plain_def in_rect_def
        resolve_def List.map_filter_def)
  have "corrected_frame lib_strict (plain 4 4 (7, 7, 7)) [(0, 0), (2, 0), (0, 2)] [(0, 1, 2)]
          (one_pixel (2, 2, 2)) = Inl CvError"
    by (simp only: corrected_frame_def strict_landmarks strict_warp_fails option.case sum.case)
  then have "process_frames lib_strict (plain 4 4 (7, 7, 7)) [(0, 0), (2, 0), (0, 2)] [(0, 1, 2)]
          [one_pixel (2, 2, 2), one_pixel (3, 3, 3)] [] = Inl CvError"
    by (simp only: process_frames_Cons sum.case)
  with lm tris show "frames_written (process_video lib_strict (Some (plain 4 4 (7, 7, 7)))
     (Some [one_pixel (1, 1, 1), one_pixel (2, 2, 2), one_pixel (3, 3, 3)])) = Inl CvError"
    by (simp add: frames_written_def process_video_frames)
qed

end
